theory Spec2Isabelle
  imports Main "HOL-Library.AList"
begin

section \<open>Data model of the resolution engine (core/container.ts)\<close>

text \<open>
  A token is a class reference, a string or a symbol. A class is identified by its name
  (two classes of the program are taken to have different names); a symbol by its
  description. \<open>getTokenName\<close> is \<open>token.name\<close> for a class and \<open>String(token)\<close>
  otherwise.
\<close>

datatype token = ClassT string | StrT string | SymT string

fun getTokenName :: "token \<Rightarrow> string" where
  "getTokenName (ClassT n) = n"
| "getTokenName (StrT s) = s"
| "getTokenName (SymT d) = ''Symbol('' @ d @ '')''"

text \<open>
  Run-time values. An object carries the number of its allocation, so that two objects
  are the identical instance exactly when they are equal; \<open>PromiseV\<close> is a promise
  made by the deferred-resolution path.
\<close>

datatype val = Undefined | Lit string | Obj nat string "val list" | PromiseV nat

datatype error = Error string

fun message :: "error \<Rightarrow> string" where
  "message (Error m) = m"

datatype lifeCycleOpt = Singleton | Transient | Request | OtherScope string

text \<open>
  A factory is user code: given the number of the object it may allocate, it throws or
  returns a value. \<open>() => new LoggerService()\<close> is
  \<open>\<lambda>n. Inr (Obj n ''LoggerService'' [])\<close>.
\<close>

type_synonym factory = "nat \<Rightarrow> error + val"

text \<open>
  \<open>Provider\<close>: every key is optional; \<open>Some\<close> means that the key is present in the
  object (\<open>"useValue" in provider\<close>).
\<close>

record provider =
  useClass :: "string option"
  useValue :: "val option"
  useFactory :: "factory option"
  scope :: "lifeCycleOpt option"

record pendingResolution =
  token :: token
  attempts :: nat
  lastError :: error
  dependencies :: "token list"

datatype promiseState = Waiting | Resolved val | Rejected error

text \<open>
  The callbacks that \<open>handleDeferredResolution\<close> hands to \<open>setTimeout\<close>: the first
  retry (it captured the promise, the token, the request id and the pending record read
  before the update) and the second retry.
\<close>

datatype task =
    Retry1 nat token "string option" "pendingResolution option"
  | Retry2 nat token "string option"

datatype timer = Timer nat task

text \<open>
  The fields of \<open>Container\<close>, each JavaScript \<open>Map\<close> as an association list in
  insertion order (\<open>AList.update\<close> is \<open>Map.set\<close>, \<open>AList.delete\<close> is
  \<open>Map.delete\<close>, \<open>length\<close> is \<open>size\<close>), the \<open>Set\<close> of the resolution stack as a
  list in insertion order; then the state of the run time that the container reads and
  writes: the next free object number, the number of request ids generated so far, the
  promises made so far and the timers waiting to fire.
\<close>

record container =
  providers :: "(token \<times> provider) list"
  singletons :: "(token \<times> val) list"
  requestInstances :: "(string \<times> (token \<times> val) list) list"
  pendingResolutions :: "(token \<times> pendingResolution) list"
  resolutionStack :: "token list"
  enableDeferredResolution :: bool
  nextObject :: nat
  generatedIds :: nat
  promises :: "promiseState list"
  timers :: "timer list"

text \<open>\<open>new Container()\<close> in a fresh run time.\<close>

definition newContainer :: container where
  "newContainer = \<lparr> providers = [], singletons = [], requestInstances = [],
     pendingResolutions = [], resolutionStack = [], enableDeferredResolution = True,
     nextObject = 0, generatedIds = 0, promises = [], timers = [] \<rparr>"

subsection \<open>register, reset, clearRequestInstances, setDeferredResolution, diagnostics\<close>

definition register :: "container \<Rightarrow> token \<Rightarrow> provider \<Rightarrow> container" where
  "register c tok p =
     (let c1 = c\<lparr>providers := AList.update tok p (providers c)\<rparr>
      in if map_of (pendingResolutions c1) tok \<noteq> None
         then c1\<lparr>pendingResolutions := AList.delete tok (pendingResolutions c1)\<rparr>
         else c1)"

definition reset :: "container \<Rightarrow> container" where
  "reset c = c\<lparr>providers := [], singletons := [], requestInstances := []\<rparr>"

definition clearRequestInstances :: "container \<Rightarrow> string \<Rightarrow> container" where
  "clearRequestInstances c requestId =
     c\<lparr>requestInstances := AList.delete requestId (requestInstances c)\<rparr>"

definition setDeferredResolution :: "container \<Rightarrow> bool \<Rightarrow> container" where
  "setDeferredResolution c enabled = c\<lparr>enableDeferredResolution := enabled\<rparr>"

record stats =
  stat_providers :: nat
  stat_singletons :: nat
  activeRequests :: nat
  stat_pendingResolutions :: nat

definition getStats :: "container \<Rightarrow> stats" where
  "getStats c = \<lparr> stat_providers = length (providers c),
     stat_singletons = length (singletons c),
     activeRequests = length (requestInstances c),
     stat_pendingResolutions = length (pendingResolutions c) \<rparr>"

record pendingReport =
  rep_token :: string
  rep_attempts :: nat
  rep_lastError :: string
  rep_dependencies :: "string list"

definition report :: "pendingResolution \<Rightarrow> pendingReport" where
  "report pending = \<lparr> rep_token = getTokenName (token pending),
     rep_attempts = attempts pending,
     rep_lastError = message (lastError pending),
     rep_dependencies = map getTokenName (dependencies pending) \<rparr>"

definition getPendingResolutions :: "container \<Rightarrow> pendingReport list" where
  "getPendingResolutions c = map report (map snd (pendingResolutions c))"

subsection \<open>Strings and error messages\<close>

text \<open>
  Strings are byte strings in UTF-8; the characters outside ASCII of the messages are
  written as their bytes. \<open>includesStr s p\<close> is \<open>s.includes(p)\<close>; the patterns searched
  for are ASCII, for which a search over the bytes finds what the search over the
  UTF-16 code units finds.
\<close>

fun startsWith :: "string \<Rightarrow> string \<Rightarrow> bool" where
  "startsWith s [] = True"
| "startsWith [] (p # ps) = False"
| "startsWith (c # cs) (p # ps) = (c = p \<and> startsWith cs ps)"

fun includesStr :: "string \<Rightarrow> string \<Rightarrow> bool" where
  "includesStr [] p = (p = [])"
| "includesStr (c # cs) p = (startsWith (c # cs) p \<or> includesStr cs p)"

fun join :: "string \<Rightarrow> string list \<Rightarrow> string" where
  "join sep [] = []"
| "join sep [x] = x"
| "join sep (x # y # ys) = x @ sep @ join sep (y # ys)"

text \<open>The decimal digit of a number below ten.\<close>

definition digit :: "nat \<Rightarrow> char" where
  "digit n = ''0123456789'' ! (n mod 10)"

fun stringOfNat :: "nat \<Rightarrow> string" where
  "stringOfNat n = (if n < 10 then [digit n] else stringOfNat (n div 10) @ [digit (n mod 10)])"

definition isInitializationError :: "error \<Rightarrow> bool" where
  "isInitializationError err =
     (let m = message err
      in includesStr m ''before initialization'' \<or> includesStr m ''is not defined''
         \<or> includesStr m ''Cannot access'' \<or> includesStr m ''ReferenceError'')"

definition circularMessage :: "token list \<Rightarrow> token \<Rightarrow> string" where
  "circularMessage stackArray tok =
     ''Depend'' @ [CHR 0xC3, CHR 0xAA] @ ''ncia circular detectada: ''
     @ join '' -> '' (map getTokenName stackArray) @ '' -> '' @ getTokenName tok"

definition unresolvedMessage :: "string \<Rightarrow> string \<Rightarrow> string" where
  "unresolvedMessage tokenName errorDetails =
     ''N'' @ [CHR 0xC3, CHR 0xA3] @ ''o foi poss'' @ [CHR 0xC3, CHR 0xAD]
     @ ''vel resolver a depend'' @ [CHR 0xC3, CHR 0xAA] @ ''ncia: '' @ tokenName
     @ [CHR 0x0A, CHR 0x0A] @ ''Poss'' @ [CHR 0xC3, CHR 0xAD] @ ''veis solu''
     @ [CHR 0xC3, CHR 0xA7, CHR 0xC3, CHR 0xB5] @ ''es:'' @ [CHR 0x0A]
     @ ''1. Registre a depend'' @ [CHR 0xC3, CHR 0xAA]
     @ ''ncia manualmente no container:'' @ [CHR 0x0A] @ ''   container.register(''
     @ tokenName @ '', { useClass: '' @ tokenName
     @ '', scope: '' @ [CHR 0x27] @ ''singleton'' @ [CHR 0x27] @ '' })''
     @ [CHR 0x0A, CHR 0x0A] @ ''2. Para classes, adicione um decorator apropriado:''
     @ [CHR 0x0A] @ ''   @Service() // para servi'' @ [CHR 0xC3, CHR 0xA7] @ ''os de neg''
     @ [CHR 0xC3, CHR 0xB3] @ ''cio'' @ [CHR 0x0A]
     @ ''   @Controller() // para controladores HTTP'' @ [CHR 0x0A]
     @ ''   @Processor() // para processadores'' @ [CHR 0x0A]
     @ ''   @Configuration // para configura'' @ [CHR 0xC3, CHR 0xA7, CHR 0xC3, CHR 0xB5]
     @ ''es'' @ [CHR 0x0A, CHR 0x0A]
     @ ''3. Execute o scanner para registrar automaticamente os componentes:''
     @ [CHR 0x0A] @ ''   await scanAndRegister()'' @ [CHR 0x0A, CHR 0x0A] @ ''Detalhes:''
     @ [CHR 0x0A] @ errorDetails"

definition exhaustedMessage :: "string \<Rightarrow> string \<Rightarrow> string" where
  "exhaustedMessage tokenName original =
     ''N'' @ [CHR 0xC3, CHR 0xA3] @ ''o foi poss'' @ [CHR 0xC3, CHR 0xAD]
     @ ''vel resolver '' @ tokenName
     @ '' ap'' @ [CHR 0xC3, CHR 0xB3] @ ''s m'' @ [CHR 0xC3, CHR 0xBA]
     @ ''ltiplas tentativas.'' @ [CHR 0x0A] @ ''Erro original: '' @ original
     @ [CHR 0x0A, CHR 0x0A] @ ''Isso geralmente indica:'' @ [CHR 0x0A] @ ''1. Depend''
     @ [CHR 0xC3, CHR 0xAA] @ ''ncia circular n'' @ [CHR 0xC3, CHR 0xA3] @ ''o detectada''
     @ [CHR 0x0A] @ ''2. Classe n'' @ [CHR 0xC3, CHR 0xA3] @ ''o est'' @ [CHR 0xC3, CHR 0xA1]
     @ '' sendo exportada corretamente'' @ [CHR 0x0A] @ ''3. Problema na ordem de importa''
     @ [CHR 0xC3, CHR 0xA7, CHR 0xC3, CHR 0xA3] @ ''o dos m'' @ [CHR 0xC3, CHR 0xB3]
     @ ''dulos'' @ [CHR 0x0A, CHR 0x0A] @ ''Solu'' @ [CHR 0xC3, CHR 0xA7, CHR 0xC3, CHR 0xB5]
     @ ''es:'' @ [CHR 0x0A] @ ''- Verifique se todas as classes est'' @ [CHR 0xC3, CHR 0xA3]
     @ ''o sendo exportadas'' @ [CHR 0x0A] @ ''- Considere usar inje''
     @ [CHR 0xC3, CHR 0xA7, CHR 0xC3, CHR 0xA3] @ ''o de depend'' @ [CHR 0xC3, CHR 0xAA]
     @ ''ncia baseada em tokens/strings'' @ [CHR 0x0A] @ ''- Reorganize a ordem das declara''
     @ [CHR 0xC3, CHR 0xA7, CHR 0xC3, CHR 0xB5] @ ''es de classe no arquivo''"

definition scopeText :: "lifeCycleOpt \<Rightarrow> string" where
  "scopeText s = (case s of Singleton \<Rightarrow> ''singleton'' | Transient \<Rightarrow> ''transient''
     | Request \<Rightarrow> ''request'' | OtherScope t \<Rightarrow> t)"

subsection \<open>What the container reads from outside\<close>

text \<open>
  The metadata that decorators and the compiler left behind, the behaviour of the
  constructors, and the request-id generator. \<open>paramtypes\<close> is
  \<open>Reflect.getMetadata("design:paramtypes", C)\<close>; \<open>constructorThrows C\<close> is the
  error that \<open>new C(...)\<close> throws, if it throws (a constructor does nothing else to
  the container); \<open>serviceScope\<close> and \<open>processorScope\<close> are the metadata under
  \<open>"service:scope"\<close> and \<open>"processor:scope"\<close>; \<open>classText C\<close> is \<open>String(C)\<close>;
  \<open>requestIds n\<close> is what the n-th call of \<open>generateRequestId()\<close> returns.
\<close>

record metadata =
  paramtypes :: "string \<Rightarrow> token list option"
  constructorThrows :: "string \<Rightarrow> error option"
  services :: "string list"
  controllers :: "string list"
  processors :: "string list"
  configurations :: "string list"
  application :: "string option"
  serviceScope :: "string \<Rightarrow> lifeCycleOpt option"
  processorScope :: "string \<Rightarrow> lifeCycleOpt option"
  classText :: "string \<Rightarrow> string"
  requestIds :: "nat \<Rightarrow> string"

definition tokenText :: "metadata \<Rightarrow> token \<Rightarrow> string" where
  "tokenText env tok = (case tok of ClassT n \<Rightarrow> classText env n | _ \<Rightarrow> getTokenName tok)"

definition getServiceScope :: "metadata \<Rightarrow> string \<Rightarrow> lifeCycleOpt" where
  "getServiceScope env target = (case serviceScope env target of Some s \<Rightarrow> s | None \<Rightarrow> Singleton)"

definition getProcessorScope :: "metadata \<Rightarrow> string \<Rightarrow> lifeCycleOpt" where
  "getProcessorScope env target =
     (case processorScope env target of Some s \<Rightarrow> s | None \<Rightarrow> Singleton)"

definition classProvider :: "string \<Rightarrow> lifeCycleOpt \<Rightarrow> provider" where
  "classProvider target s =
     \<lparr> useClass = Some target, useValue = None, useFactory = None, scope = Some s \<rparr>"

definition tryAutoRegister :: "metadata \<Rightarrow> container \<Rightarrow> string \<Rightarrow> bool \<times> container" where
  "tryAutoRegister env c target =
     (if target \<in> set (services env)
      then (True, register c (ClassT target) (classProvider target (getServiceScope env target)))
      else if target \<in> set (controllers env)
      then (True, register c (ClassT target) (classProvider target
              (case serviceScope env target of Some s \<Rightarrow> s | None \<Rightarrow> Singleton)))
      else if target \<in> set (processors env)
      then (True, register c (ClassT target) (classProvider target (getProcessorScope env target)))
      else if target \<in> set (configurations env)
      then (True, register c (ClassT target) (classProvider target Singleton))
      else if application env = Some target
      then (True, register c (ClassT target) (classProvider target Singleton))
      else (False, c))"

definition paramName :: "token \<Rightarrow> string" where
  "paramName dep = (case dep of ClassT n \<Rightarrow> (if n = [] then ''Unknown'' else n)
     | _ \<Rightarrow> ''Unknown'')"

fun paramLines :: "container \<Rightarrow> nat \<Rightarrow> token list \<Rightarrow> string list" where
  "paramLines c i [] = []"
| "paramLines c i (d # ds) =
     (''  '' @ stringOfNat (i + 1) @ ''. '' @ paramName d @ '' ''
      @ (if map_of (providers c) d \<noteq> None
         then [CHR 0xE2, CHR 0x9C, CHR 0x85] @ '' (registrada)''
         else [CHR 0xE2, CHR 0x9D, CHR 0x8C] @ '' (n'' @ [CHR 0xC3, CHR 0xA3]
              @ ''o registrada)''))
     # paramLines c (i + 1) ds"

definition generateDependencyErrorDetails :: "metadata \<Rightarrow> container \<Rightarrow> token \<Rightarrow> string" where
  "generateDependencyErrorDetails env c tok =
     (case tok of
        ClassT n \<Rightarrow>
          (let nao = '' n'' @ [CHR 0xC3, CHR 0xA3] @ ''o foi registrada'';
               first =
                 (if n \<in> set (services env)
                  then ''- Classe '' @ n @ '' tem decorator @Service mas'' @ nao
                  else if n \<in> set (controllers env)
                  then ''- Classe '' @ n @ '' tem decorator @Controller mas'' @ nao
                  else if n \<in> set (processors env)
                  then ''- Classe '' @ n @ '' tem decorator @Processor mas'' @ nao
                  else if n \<in> set (configurations env)
                  then ''- Classe '' @ n @ '' tem decorator @Configuration mas'' @ nao
                  else if application env = Some n
                  then ''- Classe '' @ n @ '' tem decorator @Application mas'' @ nao
                  else ''- Classe '' @ n @ '' n'' @ [CHR 0xC3, CHR 0xA3]
                    @ ''o possui decorators reconhecidos (@Service, @Controller, @Processor, @Configuration)'');
               ps = (case paramtypes env n of Some ds \<Rightarrow> ds | None \<Rightarrow> []);
               rest =
                 (if length ps > 0
                  then (''- Classe possui '' @ stringOfNat (length ps) @ '' depend''
                        @ [CHR 0xC3, CHR 0xAA] @ ''ncia(s) no construtor:'') # paramLines c 0 ps
                  else [''- Classe n'' @ [CHR 0xC3, CHR 0xA3] @ ''o possui depend''
                        @ [CHR 0xC3, CHR 0xAA] @ ''ncias no construtor''])
           in join [CHR 0x0A] (first # rest))
      | _ \<Rightarrow> ''- Token '' @ [CHR 0x27] @ getTokenName tok @ [CHR 0x27] @ '' n''
             @ [CHR 0xC3, CHR 0xA3] @ ''o '' @ [CHR 0xC3, CHR 0xA9]
             @ '' uma classe construtora'')"

definition unresolvedError :: "metadata \<Rightarrow> container \<Rightarrow> token \<Rightarrow> error" where
  "unresolvedError env c tok =
     Error (unresolvedMessage (getTokenName tok) (generateDependencyErrorDetails env c tok))"

subsection \<open>The resolution algorithm\<close>

text \<open>
  A call either does not finish within the fuel it was given (\<open>None\<close>), or it throws
  (\<open>Inl\<close>) or returns (\<open>Inr\<close>), leaving a container. \<open>resolve\<close>, \<open>resolveInternal\<close>
  and \<open>createInstance\<close> call each other; the functions below \<open>resolve\<close> take the
  \<open>resolve\<close> they call back as the parameter \<open>rec\<close>.
\<close>

type_synonym 'a result = "((error + 'a) \<times> container) option"

type_synonym resolver = "container \<Rightarrow> token \<Rightarrow> string option \<Rightarrow> val result"

text \<open>\<open>deps.map((dep) => this.resolve(dep, requestId))\<close>, left to right.\<close>

fun resolveDeps :: "resolver \<Rightarrow> container \<Rightarrow> token list \<Rightarrow> string option \<Rightarrow> (val list) result" where
  "resolveDeps rec c [] requestId = Some (Inr [], c)"
| "resolveDeps rec c (dep # deps) requestId =
     (case rec c dep requestId of
        None \<Rightarrow> None
      | Some (Inl e, c1) \<Rightarrow> Some (Inl e, c1)
      | Some (Inr v, c1) \<Rightarrow>
          (case resolveDeps rec c1 deps requestId of
             None \<Rightarrow> None
           | Some (Inl e, c2) \<Rightarrow> Some (Inl e, c2)
           | Some (Inr vs, c2) \<Rightarrow> Some (Inr (v # vs), c2)))"

definition createInstance :: "resolver \<Rightarrow> metadata \<Rightarrow> container \<Rightarrow> string \<Rightarrow> string option \<Rightarrow> val result" where
  "createInstance rec env c target requestId =
     (let deps = (case paramtypes env target of Some ds \<Rightarrow> ds | None \<Rightarrow> [])
      in case resolveDeps rec c deps requestId of
           None \<Rightarrow> None
         | Some (Inl e, c1) \<Rightarrow> Some (Inl e, c1)
         | Some (Inr resolvedDeps, c1) \<Rightarrow>
             (case constructorThrows env target of
                Some e \<Rightarrow> Some (Inl e, c1)
              | None \<Rightarrow> Some (Inr (Obj (nextObject c1) target resolvedDeps),
                               c1\<lparr>nextObject := Suc (nextObject c1)\<rparr>)))"

definition resolveSingleton :: "resolver \<Rightarrow> metadata \<Rightarrow> container \<Rightarrow> token \<Rightarrow> string \<Rightarrow> val result" where
  "resolveSingleton rec env c tok target =
     (case map_of (singletons c) tok of
        Some v \<Rightarrow> Some (Inr v, c)
      | None \<Rightarrow>
          (case createInstance rec env c target None of
             None \<Rightarrow> None
           | Some (Inl e, c1) \<Rightarrow> Some (Inl e, c1)
           | Some (Inr inst, c1) \<Rightarrow>
               Some (Inr inst, c1\<lparr>singletons := AList.update tok inst (singletons c1)\<rparr>)))"

definition resolveTransient :: "resolver \<Rightarrow> metadata \<Rightarrow> container \<Rightarrow> string \<Rightarrow> string option \<Rightarrow> val result" where
  "resolveTransient rec env c target requestId = createInstance rec env c target requestId"

text \<open>
  \<open>requestMap\<close> is the \<open>Map\<close> object stored under \<open>requestId\<close>: what nested
  resolutions with the same request id add during construction is in it when the new
  instance is stored. Nothing that runs during construction deletes a bucket; were it
  gone, the write would go to a \<open>Map\<close> the container no longer holds.
\<close>

definition resolveRequest :: "resolver \<Rightarrow> metadata \<Rightarrow> container \<Rightarrow> token \<Rightarrow> string \<Rightarrow> string \<Rightarrow> val result" where
  "resolveRequest rec env c tok target requestId =
     (let c0 = (case map_of (requestInstances c) requestId of
                  None \<Rightarrow> c\<lparr>requestInstances := AList.update requestId [] (requestInstances c)\<rparr>
                | Some m \<Rightarrow> c);
          requestMap = (case map_of (requestInstances c0) requestId of Some m \<Rightarrow> m | None \<Rightarrow> [])
      in case map_of requestMap tok of
           Some v \<Rightarrow> Some (Inr v, c0)
         | None \<Rightarrow>
             (case createInstance rec env c0 target (Some requestId) of
                None \<Rightarrow> None
              | Some (Inl e, c1) \<Rightarrow> Some (Inl e, c1)
              | Some (Inr inst, c1) \<Rightarrow>
                  (case map_of (requestInstances c1) requestId of
                     Some m \<Rightarrow> Some (Inr inst, c1\<lparr>requestInstances :=
                         AList.update requestId (AList.update tok inst m) (requestInstances c1)\<rparr>)
                   | None \<Rightarrow> Some (Inr inst, c1))))"

text \<open>\<open>generateRequestId()\<close>: the next id of the generator.\<close>

definition generateRequestId :: "metadata \<Rightarrow> container \<Rightarrow> string \<times> container" where
  "generateRequestId env c =
     (requestIds env (generatedIds c), c\<lparr>generatedIds := Suc (generatedIds c)\<rparr>)"

text \<open>The part of \<open>resolveInternal\<close> after the provider has been found.\<close>

definition provide :: "resolver \<Rightarrow> metadata \<Rightarrow> container \<Rightarrow> token \<Rightarrow> string option \<Rightarrow> provider \<Rightarrow> val result" where
  "provide rec env c tok requestId p =
     (case useValue p of
        Some v \<Rightarrow> Some (Inr v, c)
      | None \<Rightarrow>
     (case useFactory p of
        Some f \<Rightarrow> Some (f (nextObject c), c\<lparr>nextObject := Suc (nextObject c)\<rparr>)
      | None \<Rightarrow>
     (case useClass p of
        None \<Rightarrow> Some (Inl (Error (''Provider for token '' @ tokenText env tok
                  @ '' does not specify a class or factory.'')), c)
      | Some target \<Rightarrow>
     (case (case scope p of Some s \<Rightarrow> s | None \<Rightarrow> Singleton) of
        Singleton \<Rightarrow> resolveSingleton rec env c tok target
      | Transient \<Rightarrow> resolveTransient rec env c target requestId
      | Request \<Rightarrow>
          (case requestId of
             Some r \<Rightarrow> resolveRequest rec env c tok target r
           | None \<Rightarrow> (case generateRequestId env c of
                        (r, c1) \<Rightarrow> resolveRequest rec env c1 tok target r))
      | OtherScope s \<Rightarrow> Some (Inl (Error (''Unsupported scope: '' @ s)), c)))))"

fun resolveInternal :: "nat \<Rightarrow> resolver \<Rightarrow> metadata \<Rightarrow> container \<Rightarrow> token \<Rightarrow> string option \<Rightarrow> val result" where
  "resolveInternal 0 rec env c tok requestId = None"
| "resolveInternal (Suc k) rec env c tok requestId =
     (case map_of (providers c) tok of
        None \<Rightarrow>
          (case tok of
             ClassT target \<Rightarrow>
               (case tryAutoRegister env c target of
                  (True, c1) \<Rightarrow> resolveInternal k rec env c1 tok requestId
                | (False, c1) \<Rightarrow> Some (Inl (unresolvedError env c1 tok), c1))
           | _ \<Rightarrow> Some (Inl (unresolvedError env c tok), c))
      | Some p \<Rightarrow> provide rec env c tok requestId p)"

definition extractDependencies :: "metadata \<Rightarrow> token \<Rightarrow> token list" where
  "extractDependencies env tok =
     (case tok of
        ClassT n \<Rightarrow> (case paramtypes env n of Some ds \<Rightarrow> ds | None \<Rightarrow> [])
      | _ \<Rightarrow> [])"

text \<open>
  \<open>handleDeferredResolution\<close>: the fatal error when the pending record already counts
  three attempts; otherwise the pending record is written, a promise is made and its
  executor schedules the first retry after 50 ms. The promise is what is returned.
\<close>

definition handleDeferredResolution :: "metadata \<Rightarrow> container \<Rightarrow> token \<Rightarrow> string option \<Rightarrow> error \<Rightarrow> (error + val) \<times> container" where
  "handleDeferredResolution env c tok requestId err =
     (let pending = map_of (pendingResolutions c) tok;
          before = (case pending of Some p \<Rightarrow> attempts p | None \<Rightarrow> 0)
      in if pending \<noteq> None \<and> before \<ge> 3
         then (Inl (Error (exhaustedMessage (getTokenName tok)
                 (case pending of Some p \<Rightarrow> message (lastError p) | None \<Rightarrow> []))), c)
         else
           (let c1 = c\<lparr>pendingResolutions := AList.update tok
                        \<lparr> token = tok, attempts = before + 1, lastError = err,
                          dependencies = extractDependencies env tok \<rparr>
                        (pendingResolutions c)\<rparr>;
                pid = length (promises c1)
            in (Inr (PromiseV pid),
                c1\<lparr>promises := promises c1 @ [Waiting],
                   timers := timers c1 @ [Timer 50 (Retry1 pid tok requestId pending)]\<rparr>)))"

definition popStack :: "container \<Rightarrow> token \<Rightarrow> container" where
  "popStack c tok = c\<lparr>resolutionStack := removeAll tok (resolutionStack c)\<rparr>"

primrec resolve :: "nat \<Rightarrow> metadata \<Rightarrow> container \<Rightarrow> token \<Rightarrow> string option \<Rightarrow> val result" where
  "resolve 0 env c tok requestId = None"
| "resolve (Suc n) env c tok requestId =
     (if tok \<in> set (resolutionStack c)
      then Some (Inl (Error (circularMessage (resolutionStack c) tok)), c)
      else
        (case resolveInternal n (resolve n env) env
                (c\<lparr>resolutionStack := resolutionStack c @ [tok]\<rparr>) tok requestId of
           None \<Rightarrow> None
         | Some (Inr v, c1) \<Rightarrow> Some (Inr v, popStack c1 tok)
         | Some (Inl e, c1) \<Rightarrow>
             (if enableDeferredResolution c1 \<and> isInitializationError e
              then (case handleDeferredResolution env c1 tok requestId e of
                      (r, c2) \<Rightarrow> Some (r, popStack c2 tok))
              else Some (Inl e, popStack c1 tok))))"

subsection \<open>The timers of the deferred resolution\<close>

text \<open>
  \<open>resolve(x)\<close> and \<open>reject(e)\<close> of a promise: only a waiting promise changes.
\<close>

definition settle :: "container \<Rightarrow> nat \<Rightarrow> promiseState \<Rightarrow> container" where
  "settle c pid st =
     (if pid < length (promises c) \<and> promises c ! pid = Waiting
      then c\<lparr>promises := (promises c)[pid := st]\<rparr> else c)"

definition runTask :: "nat \<Rightarrow> metadata \<Rightarrow> container \<Rightarrow> task \<Rightarrow> container option" where
  "runTask k env c t =
     (case t of
        Retry1 pid tok requestId pending \<Rightarrow>
          (case resolveInternal k (resolve k env) env c tok requestId of
             None \<Rightarrow> None
           | Some (Inr v, c1) \<Rightarrow>
               Some (settle (c1\<lparr>pendingResolutions := AList.delete tok (pendingResolutions c1)\<rparr>)
                       pid (Resolved v))
           | Some (Inl e, c1) \<Rightarrow>
               (if (case pending of Some p \<Rightarrow> attempts p \<ge> 2 | None \<Rightarrow> False)
                then Some (settle c1 pid (Rejected e))
                else Some (c1\<lparr>timers := timers c1 @ [Timer 100 (Retry2 pid tok requestId)]\<rparr>)))
      | Retry2 pid tok requestId \<Rightarrow>
          (case resolveInternal k (resolve k env) env c tok requestId of
             None \<Rightarrow> None
           | Some (Inr v, c1) \<Rightarrow>
               Some (settle (c1\<lparr>pendingResolutions := AList.delete tok (pendingResolutions c1)\<rparr>)
                       pid (Resolved v))
           | Some (Inl e, c1) \<Rightarrow> Some (settle c1 pid (Rejected e))))"

text \<open>The \<open>i\<close>-th waiting timer fires: it leaves the queue and its callback runs.\<close>

definition fireTimer :: "nat \<Rightarrow> metadata \<Rightarrow> container \<Rightarrow> nat \<Rightarrow> container option" where
  "fireTimer k env c i =
     (if i < length (timers c)
      then (case timers c ! i of
              Timer delay t \<Rightarrow>
                runTask k env (c\<lparr>timers := take i (timers c) @ drop (Suc i) (timers c)\<rparr>) t)
      else Some c)"

section \<open>Notions used to state the properties\<close>

text \<open>A promise is what the deferred path returns in place of an instance.\<close>

fun isPromise :: "val \<Rightarrow> bool" where
  "isPromise (PromiseV n) = True"
| "isPromise v = False"

fun objectNumber :: "val \<Rightarrow> nat option" where
  "objectNumber (Obj k cn args) = Some k"
| "objectNumber v = None"

text \<open>\<open>requestInstances.get(requestId)?.get(token)\<close>.\<close>

definition cachedFor :: "container \<Rightarrow> string \<Rightarrow> token \<Rightarrow> val option" where
  "cachedFor c r t = (case map_of (requestInstances c) r of None \<Rightarrow> None | Some m \<Rightarrow> map_of m t)"

text \<open>
  What a resolution never undoes: a provider that is registered stays as it is, a
  request bucket stays, the request cache does not shrink, and the counters of objects
  and of generated request ids do not go back.
\<close>

definition keeps :: "container \<Rightarrow> container \<Rightarrow> bool" where
  "keeps c c' \<longleftrightarrow>
     (\<forall>t. map_of (providers c) t \<noteq> None \<longrightarrow> map_of (providers c') t = map_of (providers c) t)
   \<and> (\<forall>r. map_of (requestInstances c) r \<noteq> None \<longrightarrow> map_of (requestInstances c') r \<noteq> None)
   \<and> length (requestInstances c) \<le> length (requestInstances c')
   \<and> nextObject c \<le> nextObject c'
   \<and> generatedIds c \<le> generatedIds c'"

definition keeping :: "resolver \<Rightarrow> bool" where
  "keeping rec \<longleftrightarrow> (\<forall>c t rid r c'. rec c t rid = Some (r, c') \<longrightarrow> keeps c c')"

text \<open>
  What a resolution never overwrites: an instance that is in the singleton cache or in
  the request cache stays there as it is, and the resolution stack is in the end what
  it was at the beginning.
\<close>

definition retains :: "container \<Rightarrow> container \<Rightarrow> bool" where
  "retains c c' \<longleftrightarrow>
     (\<forall>t. map_of (singletons c) t \<noteq> None \<longrightarrow> map_of (singletons c') t = map_of (singletons c) t)
   \<and> (\<forall>r t. cachedFor c r t \<noteq> None \<longrightarrow> cachedFor c' r t = cachedFor c r t)
   \<and> resolutionStack c' = resolutionStack c"

definition retaining :: "resolver \<Rightarrow> bool" where
  "retaining rec \<longleftrightarrow> (\<forall>c t rid r c'. rec c t rid = Some (r, c') \<longrightarrow> retains c c')"

text \<open>
  \<open>later env tok kept c c'\<close>: the container \<open>c'\<close> is what \<open>c\<close> has become after any
  number of calls made from outside a resolution: a \<open>resolve\<close> of any token with any
  request id, whether it returns an instance, returns a promise or throws; a timer
  callback of the deferred resolution; a \<open>register\<close> of a token other than \<open>tok\<close>; a
  \<open>clearRequestInstances\<close> of a request id other than \<open>kept\<close>; a
  \<open>setDeferredResolution\<close>. A \<open>reset\<close> and a registration of \<open>tok\<close> are not among them.
\<close>

inductive later :: "metadata \<Rightarrow> token \<Rightarrow> string option \<Rightarrow> container \<Rightarrow> container \<Rightarrow> bool"
  for env :: metadata and tok :: token and kept :: "string option"
where
  later_now: "later env tok kept c c"
| later_resolve:
    "later env tok kept c c1 \<Longrightarrow> resolve n env c1 t rid = Some (r, c2) \<Longrightarrow> later env tok kept c c2"
| later_timer:
    "later env tok kept c c1 \<Longrightarrow> fireTimer k env c1 i = Some c2 \<Longrightarrow> later env tok kept c c2"
| later_register:
    "later env tok kept c c1 \<Longrightarrow> t \<noteq> tok \<Longrightarrow> later env tok kept c (register c1 t p)"
| later_clear:
    "later env tok kept c c1 \<Longrightarrow> Some r' \<noteq> kept \<Longrightarrow> later env tok kept c (clearRequestInstances c1 r')"
| later_toggle:
    "later env tok kept c c1 \<Longrightarrow> later env tok kept c (setDeferredResolution c1 b)"

text \<open>
  The request cache holds only objects that the container allocated (numbered below
  \<open>b\<close>), and no object twice. It holds of the empty cache, and resolutions keep it.
\<close>

definition ownedBelow :: "nat \<Rightarrow> container \<Rightarrow> bool" where
  "ownedBelow b c \<longleftrightarrow>
     (\<forall>r t v. cachedFor c r t = Some v \<longrightarrow> (\<exists>k. objectNumber v = Some k \<and> k < b))
   \<and> (\<forall>r t r' t' v. cachedFor c r t = Some v \<and> cachedFor c r' t' = Some v \<longrightarrow> r = r' \<and> t = t')"

definition requestCacheOwned :: "container \<Rightarrow> bool" where
  "requestCacheOwned c \<longleftrightarrow> ownedBelow (nextObject c) c"


text \<open>The container once \<open>resolveRequest\<close> has made sure that the bucket exists.\<close>

definition withBucket :: "container \<Rightarrow> string \<Rightarrow> container" where
  "withBucket c r = (case map_of (requestInstances c) r of
      None \<Rightarrow> c\<lparr>requestInstances := AList.update r [] (requestInstances c)\<rparr>
    | Some m \<Rightarrow> c)"

text \<open>A class provider with scope \<open>request\<close>: \<open>{ useClass: target, scope: "request" }\<close>.\<close>

definition requestClassProvider :: "provider \<Rightarrow> string \<Rightarrow> bool" where
  "requestClassProvider p target \<longleftrightarrow>
     useValue p = None \<and> useFactory p = None \<and> useClass p = Some target \<and> scope p = Some Request"

text \<open>
  A token that \<open>resolveInternal\<close> cannot resolve: no provider, and no decorator from
  which to register one.
\<close>

definition unregistered :: "metadata \<Rightarrow> container \<Rightarrow> token \<Rightarrow> bool" where
  "unregistered env c tok \<longleftrightarrow>
     map_of (providers c) tok = None
     \<and> (case tok of ClassT n \<Rightarrow> \<not> fst (tryAutoRegister env c n) | _ \<Rightarrow> True)"

text \<open>
  The container after the first deferred resolve of a token that had no pending
  record: the record with one attempt, a waiting promise, the first retry scheduled.
\<close>

definition deferredOnce :: "metadata \<Rightarrow> container \<Rightarrow> token \<Rightarrow> string option \<Rightarrow> container" where
  "deferredOnce env c tok rid =
     c\<lparr>pendingResolutions := pendingResolutions c @
          [(tok, \<lparr> token = tok, attempts = 1, lastError = unresolvedError env c tok,
                   dependencies = extractDependencies env tok \<rparr>)],
        promises := promises c @ [Waiting],
        timers := timers c @ [Timer 50 (Retry1 (length (promises c)) tok rid None)]\<rparr>"


section \<open>The lifecycle registry (core/life-cycle.ts)\<close>

text \<open>
  What calling a hook does: it returns, it throws, or it returns a promise that is
  fulfilled or rejected. A hook does nothing to the registry.
\<close>

datatype hookBehaviour = Returns | Throws error | Fulfils | Rejects error

datatype hookName = OnInit | OnDestroy | OnRequestStart | OnRequestEnd

text \<open>
  An instance as \<open>applyLifecycle\<close> sees it: its identity, the name of its constructor,
  and for each hook the function it has, if it has one
  (\<open>typeof instance.onInit === "function"\<close>).
\<close>

record lifeCycleAware =
  ident :: nat
  constructorName :: string
  onInit :: "hookBehaviour option"
  onDestroy :: "hookBehaviour option"
  onRequestStart :: "hookBehaviour option"
  onRequestEnd :: "hookBehaviour option"

text \<open>
  A stored callback: a hook bound to its instance (\<open>instance.onDestroy.bind(instance)\<close>)
  or the empty function \<open>() => {}\<close>.
\<close>

datatype callback = Bound nat hookName hookBehaviour | Noop

record cleanupRef =
  ref_instance :: lifeCycleAware
  ref_onDestroy :: callback

record requestCleanupRef = cleanupRef +
  ref_onRequestEnd :: callback

record lifeCycleRegistry =
  singleton :: "cleanupRef list"
  transient :: "cleanupRef list"
  request :: "(string \<times> requestCleanupRef list) list"

text \<open>
  What can be observed of a run: the hooks invoked, in order, each with the place in
  the code that invoked it, and the lines written to the console.
\<close>

datatype origin = ByApply | ByRequestCleanup string | ByTransientCleanup | BySingletonCleanup

datatype event = Invoked origin nat hookName | InfoLogged string | ErrorLogged string error

definition truthy :: "string option \<Rightarrow> bool" where
  "truthy requestId = (case requestId of Some r \<Rightarrow> r \<noteq> [] | None \<Rightarrow> False)"

definition boundOrNoop :: "lifeCycleAware \<Rightarrow> callback" where
  "boundOrNoop inst =
     (case onRequestEnd inst of Some e \<Rightarrow> Bound (ident inst) OnRequestEnd e | None \<Rightarrow> Noop)"

definition ensureBucket :: "lifeCycleRegistry \<Rightarrow> string \<Rightarrow> lifeCycleRegistry" where
  "ensureBucket reg requestId =
     (if map_of (request reg) requestId = None
      then reg\<lparr>request := AList.update requestId [] (request reg)\<rparr> else reg)"

text \<open>
  \<open>registerForCleanup\<close>; \<open>d\<close> is \<open>instance.onDestroy!\<close>, which its only caller has
  checked to be a function.
\<close>

definition registerForCleanup :: "lifeCycleRegistry \<Rightarrow> lifeCycleAware \<Rightarrow> hookBehaviour \<Rightarrow> lifeCycleOpt \<Rightarrow> string option \<Rightarrow> lifeCycleRegistry" where
  "registerForCleanup reg inst d sc requestId =
     (let cleanupRef = \<lparr> ref_instance = inst, ref_onDestroy = Bound (ident inst) OnDestroy d \<rparr>
      in case sc of
           Singleton \<Rightarrow> reg\<lparr>singleton := singleton reg @ [cleanupRef]\<rparr>
         | Transient \<Rightarrow> reg\<lparr>transient := transient reg @ [cleanupRef]\<rparr>
         | Request \<Rightarrow>
             (case requestId of
                None \<Rightarrow> reg
              | Some r \<Rightarrow>
                  (if r = [] then reg
                   else
                     (let requestCleanupRef =
                            \<lparr> ref_instance = inst, ref_onDestroy = Bound (ident inst) OnDestroy d,
                              ref_onRequestEnd = boundOrNoop inst \<rparr>;
                          reg1 = ensureBucket reg r;
                          refs = (case map_of (request reg1) r of Some rs \<Rightarrow> rs | None \<Rightarrow> [])
                      in reg1\<lparr>request := AList.update r (refs @ [requestCleanupRef]) (request reg1)\<rparr>)))
         | OtherScope s \<Rightarrow> reg)"

fun updateFirst :: "('a \<Rightarrow> bool) \<Rightarrow> ('a \<Rightarrow> 'a) \<Rightarrow> 'a list \<Rightarrow> 'a list" where
  "updateFirst P f [] = []"
| "updateFirst P f (x # xs) = (if P x then f x # xs else x # updateFirst P f xs)"

definition registerForRequestCleanup :: "lifeCycleRegistry \<Rightarrow> lifeCycleAware \<Rightarrow> string \<Rightarrow> lifeCycleRegistry" where
  "registerForRequestCleanup reg inst requestId =
     (let reg1 = ensureBucket reg requestId;
          existingRefs = (case map_of (request reg1) requestId of Some rs \<Rightarrow> rs | None \<Rightarrow> [])
      in reg1\<lparr>request := AList.update requestId
           (updateFirst (\<lambda>ref. ident (ref_instance ref) = ident inst)
              (\<lambda>ref. ref\<lparr>ref_onRequestEnd := boundOrNoop inst\<rparr>) existingRefs)
           (request reg1)\<rparr>)"

text \<open>
  A hook called by \<open>applyLifecycle\<close>: the call is not inside a \<open>try\<close>, so what the hook
  throws leaves \<open>applyLifecycle\<close>; a rejected promise is caught and logged.
\<close>

definition fireAndLog :: "string \<Rightarrow> lifeCycleAware \<Rightarrow> hookName \<Rightarrow> hookBehaviour \<Rightarrow> (error + unit) \<times> event list" where
  "fireAndLog label inst h b =
     (case b of
        Throws e \<Rightarrow> (Inl e, [Invoked ByApply (ident inst) h])
      | Rejects e \<Rightarrow> (Inr (), [Invoked ByApply (ident inst) h,
                               ErrorLogged (label @ constructorName inst @ '':'') e])
      | Returns \<Rightarrow> (Inr (), [Invoked ByApply (ident inst) h])
      | Fulfils \<Rightarrow> (Inr (), [Invoked ByApply (ident inst) h]))"

definition applyLifecycle :: "lifeCycleRegistry \<Rightarrow> lifeCycleAware \<Rightarrow> lifeCycleOpt \<Rightarrow> string option \<Rightarrow> (error + unit) \<times> lifeCycleRegistry \<times> event list" where
  "applyLifecycle reg inst sc requestId =
     (case (case onInit inst of
              None \<Rightarrow> (Inr (), [])
            | Some b \<Rightarrow> fireAndLog ''Erro no onInit de '' inst OnInit b) of
        (Inl e, t1) \<Rightarrow> (Inl e, reg, t1)
      | (Inr u, t1) \<Rightarrow>
          (case (if sc = Request \<and> truthy requestId
                 then (case onRequestStart inst of
                         None \<Rightarrow> (Inr (), [])
                       | Some b \<Rightarrow> fireAndLog ''Erro no onRequestStart de '' inst OnRequestStart b)
                 else (Inr (), [])) of
             (Inl e, t2) \<Rightarrow> (Inl e, reg, t1 @ t2)
           | (Inr u, t2) \<Rightarrow>
               (let reg1 = (case onDestroy inst of
                              None \<Rightarrow> reg
                            | Some d \<Rightarrow> registerForCleanup reg inst d sc requestId);
                    reg2 = (case requestId of
                              None \<Rightarrow> reg1
                            | Some r \<Rightarrow>
                                (if sc = Request \<and> r \<noteq> [] \<and> onRequestEnd inst \<noteq> None
                                 then registerForRequestCleanup reg1 inst r else reg1))
                in (Inr (), reg2, t1 @ t2))))"

text \<open>
  \<open>await callback()\<close> inside a \<open>try\<close>: a throw and a rejection both arrive at the
  \<open>catch\<close>.
\<close>

definition awaitCall :: "origin \<Rightarrow> callback \<Rightarrow> (error + unit) \<times> event list" where
  "awaitCall og cb =
     (case cb of
        Noop \<Rightarrow> (Inr (), [])
      | Bound i h b \<Rightarrow>
          ((case b of Throws e \<Rightarrow> Inl e | Rejects e \<Rightarrow> Inl e | Returns \<Rightarrow> Inr () | Fulfils \<Rightarrow> Inr ()),
           [Invoked og i h]))"

definition requestErrorLabel :: "string \<Rightarrow> string" where
  "requestErrorLabel requestId =
     ''Erro no cleanup da requisi'' @ [CHR 0xC3, CHR 0xA7, CHR 0xC3, CHR 0xA3] @ ''o ''
     @ requestId @ '':''"

text \<open>The body of the loop of \<open>cleanupRequest\<close>, for one reference.\<close>

definition cleanupRequestRef :: "string \<Rightarrow> requestCleanupRef \<Rightarrow> event list" where
  "cleanupRequestRef requestId ref =
     (case awaitCall (ByRequestCleanup requestId) (ref_onRequestEnd ref) of
        (Inl e, t1) \<Rightarrow> t1 @ [ErrorLogged (requestErrorLabel requestId) e]
      | (Inr u, t1) \<Rightarrow>
          (case awaitCall (ByRequestCleanup requestId) (ref_onDestroy ref) of
             (Inl e, t2) \<Rightarrow> t1 @ t2 @ [ErrorLogged (requestErrorLabel requestId) e]
           | (Inr u, t2) \<Rightarrow> t1 @ t2))"

fun cleanupRequestRefs :: "string \<Rightarrow> requestCleanupRef list \<Rightarrow> event list" where
  "cleanupRequestRefs requestId [] = []"
| "cleanupRequestRefs requestId (ref # refs) =
     cleanupRequestRef requestId ref @ cleanupRequestRefs requestId refs"

definition cleanupRequest :: "lifeCycleRegistry \<Rightarrow> string \<Rightarrow> lifeCycleRegistry \<times> event list" where
  "cleanupRequest reg requestId =
     (case map_of (request reg) requestId of
        None \<Rightarrow> (reg, [])
      | Some requestRefs \<Rightarrow>
          (reg\<lparr>request := AList.delete requestId (request reg)\<rparr>,
           InfoLogged ([CHR 0xF0, CHR 0x9F, CHR 0xA7, CHR 0xB9] @ '' Limpando ''
               @ stringOfNat (length requestRefs) @ '' inst'' @ [CHR 0xC3, CHR 0xA2]
               @ ''ncias da requisi'' @ [CHR 0xC3, CHR 0xA7, CHR 0xC3, CHR 0xA3] @ ''o ''
               @ requestId)
           # cleanupRequestRefs requestId requestRefs))"

text \<open>The body of the loops over the transient and the singleton references.\<close>

definition destroyRef :: "origin \<Rightarrow> string \<Rightarrow> cleanupRef \<Rightarrow> event list" where
  "destroyRef og label ref =
     (case awaitCall og (ref_onDestroy ref) of
        (Inl e, t) \<Rightarrow> t @ [ErrorLogged label e]
      | (Inr u, t) \<Rightarrow> t)"

fun destroyRefs :: "origin \<Rightarrow> string \<Rightarrow> cleanupRef list \<Rightarrow> event list" where
  "destroyRefs og label [] = []"
| "destroyRefs og label (ref # refs) = destroyRef og label ref @ destroyRefs og label refs"

definition cleanupTransient :: "lifeCycleRegistry \<Rightarrow> lifeCycleRegistry \<times> event list" where
  "cleanupTransient reg =
     (reg\<lparr>transient := []\<rparr>,
      InfoLogged ([CHR 0xF0, CHR 0x9F, CHR 0xA7, CHR 0xB9] @ '' Limpando ''
          @ stringOfNat (length (transient reg)) @ '' inst'' @ [CHR 0xC3, CHR 0xA2]
          @ ''ncias transient'')
      # destroyRefs ByTransientCleanup ''Erro no cleanup transient:'' (transient reg))"

text \<open>The first loop of \<open>shutdown\<close>, over the request ids that were active when it began.\<close>

fun cleanupRequests :: "lifeCycleRegistry \<Rightarrow> string list \<Rightarrow> lifeCycleRegistry \<times> event list" where
  "cleanupRequests reg [] = (reg, [])"
| "cleanupRequests reg (requestId # rest) =
     (case cleanupRequest reg requestId of
        (reg1, t1) \<Rightarrow> (case cleanupRequests reg1 rest of (reg2, t2) \<Rightarrow> (reg2, t1 @ t2)))"

definition shutdown :: "lifeCycleRegistry \<Rightarrow> lifeCycleRegistry \<times> event list" where
  "shutdown reg =
     (case cleanupRequests reg (map fst (request reg)) of
        (reg1, t1) \<Rightarrow>
          (case cleanupTransient reg1 of
             (reg2, t2) \<Rightarrow>
               (reg2\<lparr>singleton := []\<rparr>,
                [InfoLogged (''[INFO] [LIFECYCLE] Iniciando shutdown da aplica''
                   @ [CHR 0xC3, CHR 0xA7, CHR 0xC3, CHR 0xA3] @ ''o...'')]
                @ t1 @ t2
                @ [InfoLogged ([CHR 0xF0, CHR 0x9F, CHR 0xA7, CHR 0xB9] @ '' Limpando ''
                     @ stringOfNat (length (singleton reg2)) @ '' inst'' @ [CHR 0xC3, CHR 0xA2]
                     @ ''ncias singleton'')]
                @ destroyRefs BySingletonCleanup ''Erro no cleanup singleton:'' (singleton reg2)
                @ [InfoLogged ([CHR 0xE2, CHR 0x9C, CHR 0x85] @ '' Shutdown completo'')])))"

text \<open>
  The phase of \<open>shutdown\<close> an invocation belongs to: 0 for the cleanup of a request,
  1 for the transient instances, 2 for the singletons.
\<close>

fun phaseOf :: "event \<Rightarrow> nat option" where
  "phaseOf (Invoked (ByRequestCleanup r) i h) = Some 0"
| "phaseOf (Invoked ByTransientCleanup i h) = Some 1"
| "phaseOf (Invoked BySingletonCleanup i h) = Some 2"
| "phaseOf e = None"

fun phases :: "event list \<Rightarrow> nat list" where
  "phases [] = []"
| "phases (e # es) = (case phaseOf e of Some p \<Rightarrow> p # phases es | None \<Rightarrow> phases es)"




section \<open>Scenarios\<close>

text \<open>No decorators, no constructor parameters; the request ids are req_0, req_1, ...\<close>

definition noMetadata :: metadata where
  "noMetadata = \<lparr> paramtypes = (\<lambda>n. None), constructorThrows = (\<lambda>n. None), services = [],
     controllers = [], processors = [], configurations = [], application = None,
     serviceScope = (\<lambda>n. None), processorScope = (\<lambda>n. None),
     classText = (\<lambda>n. ''class '' @ n @ '' {}''),
     requestIds = (\<lambda>n. ''req_'' @ stringOfNat n) \<rparr>"

text \<open>\<open>ServiceA(serviceB)\<close> and \<open>ServiceB(serviceA)\<close>, both singletons, and a value.\<close>

definition mutualParamtypes :: "string \<Rightarrow> token list option" where
  "mutualParamtypes n =
     (if n = ''ServiceA'' then Some [ClassT ''ServiceB'']
      else if n = ''ServiceB'' then Some [ClassT ''ServiceA''] else None)"

definition valueProvider :: "val \<Rightarrow> provider" where
  "valueProvider v = \<lparr> useClass = None, useValue = Some v, useFactory = None, scope = None \<rparr>"

definition mutualContainer :: container where
  "mutualContainer =
     register (register (register newContainer
        (ClassT ''ServiceA'') (classProvider ''ServiceA'' Singleton))
        (ClassT ''ServiceB'') (classProvider ''ServiceB'' Singleton))
        (StrT ''API_KEY'') (valueProvider (Lit ''secret-key''))"

text \<open>
  \<open>container.register(LoggerService, { useFactory: () => new LoggerService(),
  scope: "singleton" })\<close>, a singleton class and a value.
\<close>

definition loggerFactory :: factory where
  "loggerFactory n = Inr (Obj n ''LoggerService'' [])"

definition factoryProvider :: "factory \<Rightarrow> lifeCycleOpt \<Rightarrow> provider" where
  "factoryProvider f s = \<lparr> useClass = None, useValue = None, useFactory = Some f, scope = Some s \<rparr>"

definition factoryContainer :: container where
  "factoryContainer =
     register (register (register newContainer
        (ClassT ''LoggerService'') (factoryProvider loggerFactory Singleton))
        (ClassT ''Greeter'') (classProvider ''Greeter'' Singleton))
        (StrT ''API_KEY'') (valueProvider (Lit ''secret-key''))"

text \<open>A request-scoped class without constructor parameters.\<close>

definition requestContainer :: container where
  "requestContainer =
     register newContainer (ClassT ''UserContext'') (classProvider ''UserContext'' Request)"

definition pairContainer :: container where
  "pairContainer =
     register (register (register (register newContainer
        (ClassT ''Greeter'') (classProvider ''Greeter'' Singleton))
        (ClassT ''Mailer'') (classProvider ''Mailer'' Singleton))
        (ClassT ''UserContext'') (classProvider ''UserContext'' Request))
        (ClassT ''Cart'') (classProvider ''Cart'' Request)"

text \<open>
  A request-scoped \<open>Handler(cache)\<close>, a singleton \<open>Cache(session)\<close> and a
  request-scoped \<open>Session\<close>.
\<close>

definition nestedParamtypes :: "string \<Rightarrow> token list option" where
  "nestedParamtypes n =
     (if n = ''Handler'' then Some [ClassT ''Cache'']
      else if n = ''Cache'' then Some [ClassT ''Session''] else None)"

definition nestedContainer :: container where
  "nestedContainer =
     register (register (register newContainer
        (ClassT ''Handler'') (classProvider ''Handler'' Request))
        (ClassT ''Cache'') (classProvider ''Cache'' Singleton))
        (ClassT ''Session'') (classProvider ''Session'' Request)"

text \<open>Instances with lifecycle hooks, and registries.\<close>

definition emptyRegistry :: lifeCycleRegistry where
  "emptyRegistry = \<lparr> singleton = [], transient = [], request = [] \<rparr>"

definition hooked :: "nat \<Rightarrow> string \<Rightarrow> lifeCycleAware" where
  "hooked i n = \<lparr> ident = i, constructorName = n, onInit = Some Returns, onDestroy = Some Returns,
     onRequestStart = Some Returns, onRequestEnd = Some Returns \<rparr>"


definition demoRegistry :: lifeCycleRegistry where
  "demoRegistry =
     \<lparr> singleton = [\<lparr> ref_instance = hooked 1 ''Database'',
                       ref_onDestroy = Bound 1 OnDestroy (Throws (Error ''closed'')) \<rparr>],
       transient = [\<lparr> ref_instance = hooked 2 ''Job'', ref_onDestroy = Bound 2 OnDestroy Returns \<rparr>],
       request = [(''req_a'', [\<lparr> ref_instance = hooked 3 ''UserContext'',
                                  ref_onDestroy = Bound 3 OnDestroy Returns,
                                  ref_onRequestEnd = Bound 3 OnRequestEnd Fulfils \<rparr>])] \<rparr>"


section \<open>Lemmas\<close>

subsection \<open>Association lists\<close>

lemma map_of_delete_same: "map_of (AList.delete k al) k = None"
  by (simp add: delete_conv')

lemma delete_absent: "map_of al k = None \<Longrightarrow> AList.delete k al = al"
  by (induction al) (auto split: if_splits)

lemma delete_filter: "AList.delete k al = filter (\<lambda>e. fst e \<noteq> k) al"
  by (induction al) auto

lemma register_pending:
  "pendingResolutions (register c tok p) = AList.delete tok (pendingResolutions c)"
  by (simp add: register_def Let_def delete_absent)

subsection \<open>What a resolution keeps\<close>

lemma keeps_refl: "keeps c c"
  by (simp add: keeps_def)

lemma keeps_trans: "keeps a b \<Longrightarrow> keeps b c \<Longrightarrow> keeps a c"
  unfolding keeps_def by (metis le_trans)

lemma length_update_le: "length al \<le> length (AList.update k v al)"
  by (induction al) auto

lemma keeps_register:
  "map_of (providers c) tok = None \<Longrightarrow> keeps c (register c tok p)"
  by (auto simp: keeps_def register_def Let_def update_conv')

lemma keeps_bucket:
  "keeps c (c\<lparr>requestInstances := AList.update r m (requestInstances c)\<rparr>)"
  by (auto simp: keeps_def update_conv' length_update_le)

lemma tryAutoRegister_keeps:
  "map_of (providers c) (ClassT target) = None \<Longrightarrow> tryAutoRegister env c target = (b, c') \<Longrightarrow> keeps c c'"
  by (auto simp: tryAutoRegister_def keeps_register keeps_refl split: if_splits)

lemma resolveDeps_keeps:
  "resolveDeps rec c ds rid = Some (r, c') \<Longrightarrow> keeping rec \<Longrightarrow> keeps c c'"
proof (induction ds arbitrary: c r c')
  case Nil
  then show ?case by (simp add: keeps_refl)
next
  case (Cons d ds)
  from Cons.prems(1) obtain r1 c1 where r1: "rec c d rid = Some (r1, c1)"
    by (auto split: option.splits)
  with Cons.prems(2) have k1: "keeps c c1" by (auto simp: keeping_def)
  show ?case
  proof (cases r1)
    case (Inl e)
    with Cons.prems(1) r1 have "c' = c1" by simp
    with k1 show ?thesis by simp
  next
    case (Inr v)
    with Cons.prems(1) r1 obtain r2 where "resolveDeps rec c1 ds rid = Some (r2, c')"
      by (auto split: option.splits sum.splits)
    with Cons.IH Cons.prems(2) have "keeps c1 c'" by blast
    with k1 show ?thesis by (rule keeps_trans)
  qed
qed

lemma keeps_field:
  "keeps c b \<Longrightarrow> keeps c (b\<lparr>nextObject := Suc (nextObject b)\<rparr>)"
  "keeps c b \<Longrightarrow> keeps c (b\<lparr>singletons := s\<rparr>)"
  "keeps c b \<Longrightarrow> keeps c (b\<lparr>resolutionStack := st\<rparr>)"
  "keeps c b \<Longrightarrow> keeps c (b\<lparr>generatedIds := Suc (generatedIds b)\<rparr>)"
  "keeps c b \<Longrightarrow> keeps c (b\<lparr>pendingResolutions := pe\<rparr>)"
  "keeps c b \<Longrightarrow> keeps c (b\<lparr>promises := pr\<rparr>)"
  "keeps c b \<Longrightarrow> keeps c (b\<lparr>timers := ti\<rparr>)"
  "keeps c b \<Longrightarrow> keeps c (b\<lparr>requestInstances := AList.update k m (requestInstances b)\<rparr>)"
  by (auto simp: keeps_def update_conv' intro: le_trans[OF _ length_update_le])

lemma createInstance_keeps:
  "createInstance rec env c target rid = Some (r, c') \<Longrightarrow> keeping rec \<Longrightarrow> keeps c c'"
  unfolding createInstance_def Let_def
  by (auto split: option.splits sum.splits dest!: resolveDeps_keeps
      simp: keeps_field keeps_refl)

lemma resolveSingleton_keeps:
  "resolveSingleton rec env c tok target = Some (r, c') \<Longrightarrow> keeping rec \<Longrightarrow> keeps c c'"
  unfolding resolveSingleton_def
  by (auto split: option.splits sum.splits dest!: createInstance_keeps simp: keeps_field keeps_refl)

lemma resolveRequest_keeps:
  assumes "resolveRequest rec env c tok target rid = Some (r, c')" and "keeping rec"
  shows "keeps c c'"
proof -
  define c0 where "c0 = (case map_of (requestInstances c) rid of
      None \<Rightarrow> c\<lparr>requestInstances := AList.update rid [] (requestInstances c)\<rparr>
    | Some m \<Rightarrow> c)"
  have k0: "keeps c c0"
    by (simp add: c0_def keeps_refl keeps_bucket split: option.splits)
  from assms(1) have "c' = c0 \<or> (\<exists>r1 c1. createInstance rec env c0 target (Some rid) = Some (r1, c1)
      \<and> (c' = c1 \<or> (\<exists>m. c' = c1\<lparr>requestInstances := AList.update rid m (requestInstances c1)\<rparr>)))"
    unfolding resolveRequest_def Let_def c0_def[symmetric]
    by (auto split: option.splits sum.splits)
  then show ?thesis
  proof
    assume "c' = c0"
    with k0 show ?thesis by simp
  next
    assume "\<exists>r1 c1. createInstance rec env c0 target (Some rid) = Some (r1, c1)
      \<and> (c' = c1 \<or> (\<exists>m. c' = c1\<lparr>requestInstances := AList.update rid m (requestInstances c1)\<rparr>))"
    then obtain r1 c1 where ci: "createInstance rec env c0 target (Some rid) = Some (r1, c1)"
      and c': "c' = c1 \<or> (\<exists>m. c' = c1\<lparr>requestInstances := AList.update rid m (requestInstances c1)\<rparr>)"
      by blast
    from createInstance_keeps[OF ci assms(2)] k0 have "keeps c c1" by (blast intro: keeps_trans)
    with c' show ?thesis by (auto simp: keeps_field)
  qed
qed

lemma provide_keeps:
  "provide rec env c tok rid p = Some (r, c') \<Longrightarrow> keeping rec \<Longrightarrow> keeps c c'"
  unfolding provide_def resolveTransient_def generateRequestId_def
  by (auto split: option.splits sum.splits lifeCycleOpt.splits
      dest!: createInstance_keeps resolveSingleton_keeps resolveRequest_keeps
      simp: keeps_field keeps_refl intro: keeps_trans[OF keeps_field(4)[OF keeps_refl]])

lemma resolveInternal_keeps:
  "resolveInternal k rec env c tok rid = Some (r, c') \<Longrightarrow> keeping rec \<Longrightarrow> keeps c c'"
proof (induction k arbitrary: c)
  case 0
  then show ?case by simp
next
  case (Suc k)
  show ?case
  proof (cases "map_of (providers c) tok")
    case (Some p)
    with Suc.prems show ?thesis by (auto dest: provide_keeps)
  next
    case None
    show ?thesis
    proof (cases tok)
      case (ClassT target)
      obtain b c1 where t: "tryAutoRegister env c target = (b, c1)" by (cases "tryAutoRegister env c target")
      with None ClassT have k1: "keeps c c1" by (auto dest: tryAutoRegister_keeps)
      show ?thesis
      proof (cases b)
        case True
        with Suc.prems None ClassT t have "resolveInternal k rec env c1 tok rid = Some (r, c')" by simp
        with Suc.IH Suc.prems(2) have "keeps c1 c'" by blast
        with k1 show ?thesis by (rule keeps_trans)
      next
        case False
        with Suc.prems None ClassT t have "c' = c1" by simp
        with k1 show ?thesis by simp
      qed
    next
      case (StrT s)
      with Suc.prems None show ?thesis by (auto simp: keeps_refl)
    next
      case (SymT s)
      with Suc.prems None show ?thesis by (auto simp: keeps_refl)
    qed
  qed
qed

lemma handleDeferredResolution_keeps:
  "handleDeferredResolution env c tok rid e = (r, c') \<Longrightarrow> keeps c c'"
  unfolding handleDeferredResolution_def Let_def
  by (auto split: if_splits simp: keeps_def)

lemma resolve_keeps: "resolve n env c tok rid = Some (r, c') \<Longrightarrow> keeps c c'"
proof (induction n arbitrary: c tok rid r c')
  case 0
  then show ?case by simp
next
  case (Suc n)
  from Suc.IH have kk: "keeping (resolve n env)" unfolding keeping_def by blast
  show ?case
  proof (cases "tok \<in> set (resolutionStack c)")
    case True
    with Suc.prems show ?thesis by (auto simp: keeps_refl)
  next
    case False
    let ?c0 = "c\<lparr>resolutionStack := resolutionStack c @ [tok]\<rparr>"
    from Suc.prems False obtain r1 c1 where
      ri: "resolveInternal n (resolve n env) env ?c0 tok rid = Some (r1, c1)"
      by (auto split: option.splits)
    from resolveInternal_keeps[OF ri kk] have k1: "keeps c c1" by (simp add: keeps_def)
    show ?thesis
    proof (cases r1)
      case (Inr v)
      with Suc.prems False ri have "c' = popStack c1 tok" by simp
      with k1 show ?thesis by (simp add: popStack_def keeps_field)
    next
      case (Inl e)
      show ?thesis
      proof (cases "enableDeferredResolution c1 \<and> isInitializationError e")
        case False
        with Suc.prems \<open>tok \<notin> set (resolutionStack c)\<close> ri Inl have "c' = popStack c1 tok" by auto
        with k1 show ?thesis by (simp add: popStack_def keeps_field)
      next
        case True
        obtain r2 c2 where h: "handleDeferredResolution env c1 tok rid e = (r2, c2)"
          by (cases "handleDeferredResolution env c1 tok rid e")
        with Suc.prems \<open>tok \<notin> set (resolutionStack c)\<close> ri Inl True have "c' = popStack c2 tok" by auto
        moreover from h have "keeps c1 c2" by (rule handleDeferredResolution_keeps)
        ultimately show ?thesis using k1 by (auto simp: popStack_def keeps_field intro: keeps_trans)
      qed
    qed
  qed
qed

subsection \<open>Singleton, value and factory providers\<close>

lemma removeAll_snoc: "tok \<notin> set st \<Longrightarrow> removeAll tok (st @ [tok]) = st"
  by simp

lemma popStack_push:
  "tok \<notin> set (resolutionStack c) \<Longrightarrow> popStack (c\<lparr>resolutionStack := resolutionStack c @ [tok]\<rparr>) tok = c"
  by (simp add: popStack_def)

lemma popStack_again:
  "popStack ((popStack c tok)\<lparr>resolutionStack := resolutionStack (popStack c tok) @ [tok]\<rparr>) tok = popStack c tok"
  by (simp add: popStack_def)

lemma handleDeferredResolution_result:
  "handleDeferredResolution env c tok rid e = (Inr v, c') \<Longrightarrow> isPromise v"
  unfolding handleDeferredResolution_def Let_def by (auto split: if_splits)

text \<open>A resolve that returns something that is no promise returned it from resolveInternal.\<close>

lemma resolve_returned:
  assumes "resolve n env c tok rid = Some (Inr v, c1)" and "\<not> isPromise v"
  shows "\<exists>k c'. n = Suc k \<and> tok \<notin> set (resolutionStack c)
     \<and> resolveInternal k (resolve k env) env (c\<lparr>resolutionStack := resolutionStack c @ [tok]\<rparr>) tok rid = Some (Inr v, c')
     \<and> c1 = popStack c' tok"
proof (cases n)
  case 0
  with assms show ?thesis by simp
next
  case (Suc k)
  with assms(1) have notin: "tok \<notin> set (resolutionStack c)" by (auto split: if_splits)
  let ?c0 = "c\<lparr>resolutionStack := resolutionStack c @ [tok]\<rparr>"
  from assms(1) Suc notin obtain r1 c' where
    ri: "resolveInternal k (resolve k env) env ?c0 tok rid = Some (r1, c')"
    by (auto split: option.splits)
  show ?thesis
  proof (cases r1)
    case (Inr w)
    with assms(1) Suc notin ri show ?thesis by auto
  next
    case (Inl e)
    with assms Suc notin ri show ?thesis
      by (auto split: if_splits prod.splits dest: handleDeferredResolution_result)
  qed
qed

lemma resolveInternal_provided:
  "resolveInternal k rec env c tok rid = Some (r, c') \<Longrightarrow> map_of (providers c) tok = Some p
   \<Longrightarrow> provide rec env c tok rid p = Some (r, c')"
  by (cases k) auto

lemma resolveSingleton_cached:
  "resolveSingleton rec env c tok target = Some (Inr v, c') \<Longrightarrow> map_of (singletons c') tok = Some v"
  unfolding resolveSingleton_def
  by (auto split: option.splits sum.splits simp: update_conv')

lemma provide_singleton:
  "useValue p = None \<Longrightarrow> useFactory p = None \<Longrightarrow> useClass p = Some target
   \<Longrightarrow> scope p = None \<or> scope p = Some Singleton
   \<Longrightarrow> provide rec env c tok rid p = resolveSingleton rec env c tok target"
  by (auto simp: provide_def)

lemma value_provider:
  assumes "map_of (providers c) tok = Some p" "useValue p = Some w" "tok \<notin> set (resolutionStack c)"
  shows "resolve (Suc (Suc m)) env c tok rid = Some (Inr w, c)"
  using assms by (simp add: provide_def popStack_push)

lemma factory_provider:
  assumes "map_of (providers c) tok = Some p" "useValue p = None" "useFactory p = Some f"
    "tok \<notin> set (resolutionStack c)" "f (nextObject c) = Inr u"
  shows "resolve (Suc (Suc m)) env c tok rid = Some (Inr u, c\<lparr>nextObject := Suc (nextObject c)\<rparr>)"
  using assms by (simp add: provide_def popStack_def)

subsection \<open>The request cache holds its own objects\<close>





lemma cachedFor_new_bucket:
  "map_of (requestInstances c) r = None \<Longrightarrow>
   cachedFor (c\<lparr>requestInstances := AList.update r [] (requestInstances c)\<rparr>) r' t = cachedFor c r' t"
  by (simp add: cachedFor_def update_conv')

lemma cachedFor_store:
  "map_of (requestInstances c) r = Some m \<Longrightarrow>
   cachedFor (c\<lparr>requestInstances := AList.update r (AList.update t v m) (requestInstances c)\<rparr>) r' t'
     = (if r' = r \<and> t' = t then Some v else cachedFor c r' t')"
  by (simp add: cachedFor_def update_conv')
















subsection \<open>Request-scoped class providers\<close>

lemma length_update_fresh: "map_of al k = None \<Longrightarrow> length (AList.update k v al) = Suc (length al)"
  by (induction al) (auto split: if_splits)

lemma length_update_present: "map_of al k = Some w \<Longrightarrow> length (AList.update k v al) = length al"
  by (induction al) (auto split: if_splits)

lemma cachedFor_withBucket: "cachedFor (withBucket c r) r' t = cachedFor c r' t"
  by (auto simp: withBucket_def cachedFor_new_bucket split: option.splits)

lemma withBucket_has: "map_of (requestInstances (withBucket c r)) r \<noteq> None"
  by (auto simp: withBucket_def update_conv' split: option.splits)

lemma keeps_withBucket: "keeps c (withBucket c r)"
  by (auto simp: withBucket_def keeps_bucket keeps_refl split: option.splits)

lemma resolveRequest_hit:
  "cachedFor c r tok = Some v \<Longrightarrow> resolveRequest rec env c tok target r = Some (Inr v, c)"
  by (auto simp: resolveRequest_def cachedFor_def Let_def split: option.splits)

text \<open>A miss: the instance is constructed and stored in the bucket of the request.\<close>

lemma resolveRequest_miss:
  assumes "cachedFor c r tok = None" "resolveRequest rec env c tok target r = Some (Inr v, c')"
    "keeping rec"
  shows "\<exists>c1 m. createInstance rec env (withBucket c r) target (Some r) = Some (Inr v, c1)
     \<and> map_of (requestInstances c1) r = Some m
     \<and> c' = c1\<lparr>requestInstances := AList.update r (AList.update tok v m) (requestInstances c1)\<rparr>"
proof -
  have miss: "map_of (case map_of (requestInstances (withBucket c r)) r of Some m \<Rightarrow> m | None \<Rightarrow> []) tok = None"
    using assms(1) cachedFor_withBucket[of c r r tok]
    by (auto simp: cachedFor_def split: option.splits)
  from assms(2) miss obtain c1 where ci: "createInstance rec env (withBucket c r) target (Some r) = Some (Inr v, c1)"
    unfolding resolveRequest_def Let_def withBucket_def[symmetric]
    by (auto split: option.splits sum.splits)
  from createInstance_keeps[OF ci assms(3)] withBucket_has[of c r]
  obtain m where m: "map_of (requestInstances c1) r = Some m" by (auto simp: keeps_def)
  with assms(2) miss ci
  have "c' = c1\<lparr>requestInstances := AList.update r (AList.update tok v m) (requestInstances c1)\<rparr>"
    unfolding resolveRequest_def Let_def withBucket_def[symmetric] by simp
  with ci m show ?thesis by blast
qed

lemma resolveRequest_cached:
  assumes "resolveRequest rec env c tok target r = Some (Inr v, c')" "keeping rec"
  shows "cachedFor c' r tok = Some v"
proof (cases "cachedFor c r tok")
  case (Some u)
  with assms(1) show ?thesis by (simp add: resolveRequest_hit)
next
  case None
  from resolveRequest_miss[OF None assms] obtain c1 m where
    "map_of (requestInstances c1) r = Some m"
    "c' = c1\<lparr>requestInstances := AList.update r (AList.update tok v m) (requestInstances c1)\<rparr>"
    by blast
  then show ?thesis by (simp add: cachedFor_store)
qed



lemma provide_request:
  "requestClassProvider p target \<Longrightarrow>
   provide rec env c tok (Some r) p = resolveRequest rec env c tok target r"
  "requestClassProvider p target \<Longrightarrow>
   provide rec env c tok None p = resolveRequest rec env (c\<lparr>generatedIds := Suc (generatedIds c)\<rparr>) tok target
      (requestIds env (generatedIds c))"
  by (auto simp: provide_def requestClassProvider_def generateRequestId_def)

lemma keeping_resolve: "keeping (resolve k env)"
  unfolding keeping_def by (blast intro: resolve_keeps)

lemma cachedFor_fields:
  "cachedFor (c\<lparr>resolutionStack := st\<rparr>) = cachedFor c"
  "cachedFor (c\<lparr>generatedIds := g\<rparr>) = cachedFor c"
  "cachedFor (popStack c tok) = cachedFor c"
  by (simp_all add: cachedFor_def popStack_def fun_eq_iff)


lemma request_resolved_noid:
  assumes prov: "map_of (providers c) tok = Some p" "requestClassProvider p target"
    and first: "resolve n env c tok None = Some (Inr v, c1)" and np: "\<not> isPromise v"
  shows "\<exists>k c'. n = Suc k \<and> tok \<notin> set (resolutionStack c)
     \<and> resolveRequest (resolve k env) env
          (c\<lparr>resolutionStack := resolutionStack c @ [tok], generatedIds := Suc (generatedIds c)\<rparr>) tok target
          (requestIds env (generatedIds c)) = Some (Inr v, c')
     \<and> c1 = popStack c' tok"
proof -
  from resolve_returned[OF first np] obtain k c' where
    notin: "tok \<notin> set (resolutionStack c)" and n: "n = Suc k"
    and ri: "resolveInternal k (resolve k env) env (c\<lparr>resolutionStack := resolutionStack c @ [tok]\<rparr>) tok None = Some (Inr v, c')"
    and c1: "c1 = popStack c' tok" by blast
  from prov(1) have p0: "map_of (providers (c\<lparr>resolutionStack := resolutionStack c @ [tok]\<rparr>)) tok = Some p" by simp
  from resolveInternal_provided[OF ri p0] provide_request(2)[OF prov(2)] n notin c1
  show ?thesis by auto
qed

lemma clear_other:
  "r' \<noteq> g \<Longrightarrow> cachedFor (clearRequestInstances c r') g tok = cachedFor c g tok"
  by (simp add: cachedFor_def clearRequestInstances_def)

subsection \<open>Deferred resolution\<close>

lemma startsWith_append: "startsWith a p \<Longrightarrow> startsWith (a @ b) p"
  by (induction a p rule: startsWith.induct) auto

lemma includesStr_appendI1: "includesStr a p \<Longrightarrow> includesStr (a @ b) p"
proof (induction a)
  case Nil
  then show ?case by (cases b) auto
next
  case (Cons x a)
  then show ?case using startsWith_append[of "x # a" p b] by auto
qed

lemma includesStr_appendI2: "includesStr b p \<Longrightarrow> includesStr (a @ b) p"
  by (induction a) auto

lemma unresolved_matches:
  "includesStr (getTokenName tok) ''ReferenceError'' \<Longrightarrow> isInitializationError (unresolvedError env c tok)"
  unfolding isInitializationError_def unresolvedError_def unresolvedMessage_def Let_def message.simps
  by (intro disjI2 includesStr_appendI2 includesStr_appendI1[of "getTokenName tok"])

lemma paramLines_providers:
  "providers c' = providers c \<Longrightarrow> paramLines c' i ds = paramLines c i ds"
  by (induction ds arbitrary: i) auto

lemma unresolvedError_providers:
  "providers c' = providers c \<Longrightarrow> unresolvedError env c' tok = unresolvedError env c tok"
  using paramLines_providers[of c' c]
  by (simp add: unresolvedError_def generateDependencyErrorDetails_def Let_def split: token.splits)

lemma tryAutoRegister_False:
  "\<not> fst (tryAutoRegister env c n) \<Longrightarrow> tryAutoRegister env c n = (False, c)"
  by (auto simp: tryAutoRegister_def split: if_splits)

lemma tryAutoRegister_stack:
  "fst (tryAutoRegister env (c\<lparr>resolutionStack := st\<rparr>) n) = fst (tryAutoRegister env c n)"
  by (auto simp: tryAutoRegister_def)

lemma tryAutoRegister_fst: "fst (tryAutoRegister env c' n) = fst (tryAutoRegister env c n)"
  by (simp add: tryAutoRegister_def)

lemma unregistered_providers:
  "providers c' = providers c \<Longrightarrow> unregistered env c' tok = unregistered env c tok"
  using tryAutoRegister_fst[of env c' _ c] by (simp add: unregistered_def split: token.splits)

lemma unregistered_fields:
  "unregistered env (c\<lparr>resolutionStack := st\<rparr>) tok = unregistered env c tok"
  "unregistered env (c\<lparr>timers := ti\<rparr>) tok = unregistered env c tok"
  "unregistered env (c\<lparr>promises := pr\<rparr>) tok = unregistered env c tok"
  "unregistered env (c\<lparr>pendingResolutions := pe\<rparr>) tok = unregistered env c tok"
  by (auto simp: unregistered_def tryAutoRegister_def split: token.splits)

lemma resolveInternal_unregistered:
  "unregistered env c tok \<Longrightarrow>
   resolveInternal (Suc k) rec env c tok rid = Some (Inl (unresolvedError env c tok), c)"
  by (auto simp: unregistered_def tryAutoRegister_False split: token.splits)

lemma update_absent: "map_of al k = None \<Longrightarrow> AList.update k v al = al @ [(k, v)]"
  by (induction al) (auto split: if_splits)

lemma resolve_disabled:
  assumes "unregistered env c tok" "tok \<notin> set (resolutionStack c)" "\<not> enableDeferredResolution c"
  shows "resolve (Suc (Suc n)) env c tok rid = Some (Inl (unresolvedError env c tok), c)"
proof -
  let ?c0 = "c\<lparr>resolutionStack := resolutionStack c @ [tok]\<rparr>"
  have u: "unregistered env ?c0 tok" using assms(1) by (simp add: unregistered_fields)
  have e: "unresolvedError env ?c0 tok = unresolvedError env c tok"
    by (rule unresolvedError_providers) simp
  show ?thesis
    using assms(2,3) resolveInternal_unregistered[OF u, of n "resolve (Suc n) env" rid]
    by (simp add: e popStack_push del: resolveInternal.simps)
qed

lemma resolve_deferred:
  assumes "unregistered env c tok" "tok \<notin> set (resolutionStack c)" "enableDeferredResolution c"
    "isInitializationError (unresolvedError env c tok)" "map_of (pendingResolutions c) tok = None"
  shows "resolve (Suc (Suc n)) env c tok rid
     = Some (Inr (PromiseV (length (promises c))), deferredOnce env c tok rid)"
proof -
  let ?c0 = "c\<lparr>resolutionStack := resolutionStack c @ [tok]\<rparr>"
  have u: "unregistered env ?c0 tok" using assms(1) by (simp add: unregistered_fields)
  have e: "unresolvedError env ?c0 tok = unresolvedError env c tok"
    by (rule unresolvedError_providers) simp
  have h: "handleDeferredResolution env ?c0 tok rid (unresolvedError env c tok)
     = (Inr (PromiseV (length (promises c))),
        (deferredOnce env c tok rid)\<lparr>resolutionStack := resolutionStack c @ [tok]\<rparr>)"
    using assms(5) by (simp add: handleDeferredResolution_def Let_def deferredOnce_def update_absent)
  show ?thesis
    using assms(2,3,4) resolveInternal_unregistered[OF u, of n "resolve (Suc n) env" rid] h
    by (simp add: e popStack_def deferredOnce_def del: resolveInternal.simps)
qed

lemma first_retry:
  assumes "unregistered env c tok"
  shows "fireTimer (Suc k) env (deferredOnce env c tok rid) (length (timers c))
     = Some ((deferredOnce env c tok rid)\<lparr>timers := timers c @ [Timer 100 (Retry2 (length (promises c)) tok rid)]\<rparr>)"
proof -
  let ?c1 = "(deferredOnce env c tok rid)\<lparr>timers := timers c\<rparr>"
  have u: "unregistered env ?c1 tok" using assms by (simp add: deferredOnce_def unregistered_fields)
  have e: "unresolvedError env ?c1 tok = unresolvedError env c tok"
    by (rule unresolvedError_providers) (simp add: deferredOnce_def)
  have "runTask (Suc k) env ?c1 (Retry1 (length (promises c)) tok rid None)
     = Some (?c1\<lparr>timers := timers c @ [Timer 100 (Retry2 (length (promises c)) tok rid)]\<rparr>)"
    using resolveInternal_unregistered[OF u, of k "resolve (Suc k) env" rid]
    by (simp add: runTask_def e del: resolveInternal.simps)
  then show ?thesis by (simp add: fireTimer_def deferredOnce_def)
qed

lemma second_retry:
  assumes "unregistered env c tok"
  shows "fireTimer (Suc k) env
       ((deferredOnce env c tok rid)\<lparr>timers := timers c @ [Timer 100 (Retry2 (length (promises c)) tok rid)]\<rparr>)
       (length (timers c))
     = Some ((deferredOnce env c tok rid)\<lparr>timers := timers c,
          promises := promises c @ [Rejected (unresolvedError env c tok)]\<rparr>)"
proof -
  let ?c1 = "(deferredOnce env c tok rid)\<lparr>timers := timers c\<rparr>"
  have u: "unregistered env ?c1 tok" using assms by (simp add: deferredOnce_def unregistered_fields)
  have e: "unresolvedError env ?c1 tok = unresolvedError env c tok"
    by (rule unresolvedError_providers) (simp add: deferredOnce_def)
  have "runTask (Suc k) env ?c1 (Retry2 (length (promises c)) tok rid)
     = Some (settle ?c1 (length (promises c)) (Rejected (unresolvedError env c tok)))"
    using resolveInternal_unregistered[OF u, of k "resolve (Suc k) env" rid]
    by (simp add: runTask_def e del: resolveInternal.simps)
  moreover have "settle ?c1 (length (promises c)) (Rejected (unresolvedError env c tok))
     = (deferredOnce env c tok rid)\<lparr>timers := timers c,
          promises := promises c @ [Rejected (unresolvedError env c tok)]\<rparr>"
    by (simp add: settle_def deferredOnce_def nth_append)
  ultimately show ?thesis by (simp add: fireTimer_def deferredOnce_def)
qed

lemma resolve_counts_attempts:
  assumes "unregistered env c tok" "tok \<notin> set (resolutionStack c)" "enableDeferredResolution c"
    "isInitializationError (unresolvedError env c tok)" "map_of (pendingResolutions c) tok = Some pd"
    "attempts pd < 3"
  shows "\<exists>c'. resolve (Suc (Suc n)) env c tok rid = Some (Inr (PromiseV (length (promises c))), c')
     \<and> map_option attempts (map_of (pendingResolutions c') tok) = Some (Suc (attempts pd))
     \<and> unregistered env c' tok \<and> resolutionStack c' = resolutionStack c
     \<and> enableDeferredResolution c' \<and> unresolvedError env c' tok = unresolvedError env c tok"
proof -
  let ?c0 = "c\<lparr>resolutionStack := resolutionStack c @ [tok]\<rparr>"
  have u: "unregistered env ?c0 tok" using assms(1) by (simp add: unregistered_fields)
  have e: "unresolvedError env ?c0 tok = unresolvedError env c tok"
    by (rule unresolvedError_providers) simp
  obtain r c2 where h: "handleDeferredResolution env ?c0 tok rid (unresolvedError env c tok) = (r, c2)"
    by (cases "handleDeferredResolution env ?c0 tok rid (unresolvedError env c tok)")
  from h assms(5,6) have r: "r = Inr (PromiseV (length (promises c)))"
    and pe: "map_option attempts (map_of (pendingResolutions c2) tok) = Some (Suc (attempts pd))"
    and same: "providers c2 = providers c" "resolutionStack c2 = resolutionStack c @ [tok]"
      "enableDeferredResolution c2 = enableDeferredResolution c"
    by (auto simp: handleDeferredResolution_def Let_def update_conv')
  have u2: "unregistered env (popStack c2 tok) tok"
    using assms(1) unregistered_providers[of "popStack c2 tok" c env tok] same(1)
    by (simp add: popStack_def)
  have e2: "unresolvedError env (popStack c2 tok) tok = unresolvedError env c tok"
    by (rule unresolvedError_providers) (simp add: popStack_def same)
  have "resolve (Suc (Suc n)) env c tok rid = Some (r, popStack c2 tok)"
    using assms(2,3,4) resolveInternal_unregistered[OF u, of n "resolve (Suc n) env" rid] h
    by (simp add: e del: resolveInternal.simps)
  with r pe u2 e2 same assms(2,3) show ?thesis by (auto simp: popStack_def)
qed

lemma resolve_exhausted:
  assumes "unregistered env c tok" "tok \<notin> set (resolutionStack c)" "enableDeferredResolution c"
    "isInitializationError (unresolvedError env c tok)" "map_of (pendingResolutions c) tok = Some pd"
    "3 \<le> attempts pd"
  shows "resolve (Suc (Suc n)) env c tok rid
     = Some (Inl (Error (exhaustedMessage (getTokenName tok) (message (lastError pd)))), c)"
proof -
  let ?c0 = "c\<lparr>resolutionStack := resolutionStack c @ [tok]\<rparr>"
  have u: "unregistered env ?c0 tok" using assms(1) by (simp add: unregistered_fields)
  have e: "unresolvedError env ?c0 tok = unresolvedError env c tok"
    by (rule unresolvedError_providers) simp
  have h: "handleDeferredResolution env ?c0 tok rid (unresolvedError env c tok)
     = (Inl (Error (exhaustedMessage (getTokenName tok) (message (lastError pd)))), ?c0)"
    using assms(5,6) by (simp add: handleDeferredResolution_def Let_def)
  show ?thesis
    using assms(2,3,4) resolveInternal_unregistered[OF u, of n "resolve (Suc n) env" rid] h
    by (simp add: e popStack_push del: resolveInternal.simps)
qed

subsection \<open>Cleanup of a request\<close>

lemma updateFirst_nonempty: "updateFirst P f xs = [] \<longleftrightarrow> xs = []"
  by (cases xs) auto





lemma cleanupRequestRefs_set:
  "set (cleanupRequestRefs R refs) = (\<Union>ref \<in> set refs. set (cleanupRequestRef R ref))"
  by (induction refs) auto

lemma cleanupRequestRef_end_invoked:
  "ref_onRequestEnd ref = Bound i h b \<Longrightarrow> Invoked (ByRequestCleanup R) i h \<in> set (cleanupRequestRef R ref)"
  by (auto simp: cleanupRequestRef_def awaitCall_def split: prod.splits sum.splits callback.splits)


subsection \<open>Shutdown\<close>

lemma phases_append: "phases (a @ b) = phases a @ phases b"
  by (induction a) (auto split: option.splits)

lemma phases_Cons_info: "phases (InfoLogged s # tr) = phases tr"
  by simp

lemma phases_awaitCall_request:
  "set (phases (snd (awaitCall (ByRequestCleanup R) cb))) \<subseteq> {0}"
  by (cases cb) (simp_all add: awaitCall_def)

lemma phases_cleanupRequestRef: "set (phases (cleanupRequestRef R ref)) \<subseteq> {0}"
  by (cases "ref_onRequestEnd ref"; cases "ref_onDestroy ref")
    (auto simp: cleanupRequestRef_def awaitCall_def
      split: sum.splits hookBehaviour.splits)

lemma phases_cleanupRequestRefs: "set (phases (cleanupRequestRefs R refs)) \<subseteq> {0}"
  using phases_cleanupRequestRef by (induction refs) (auto simp: phases_append)

lemma phases_cleanupRequest: "set (phases (snd (cleanupRequest reg R))) \<subseteq> {0}"
  using phases_cleanupRequestRefs
  by (auto simp: cleanupRequest_def split: option.splits)

lemma phases_cleanupRequests: "set (phases (snd (cleanupRequests reg ks))) \<subseteq> {0}"
proof (induction ks arbitrary: reg)
  case Nil
  then show ?case by simp
next
  case (Cons k ks)
  obtain reg1 t1 where c1: "cleanupRequest reg k = (reg1, t1)" by (cases "cleanupRequest reg k")
  obtain reg2 t2 where c2: "cleanupRequests reg1 ks = (reg2, t2)" by (cases "cleanupRequests reg1 ks")
  from phases_cleanupRequest[of reg k] c1 have "set (phases t1) \<subseteq> {0}" by simp
  moreover from Cons.IH[of reg1] c2 have "set (phases t2) \<subseteq> {0}" by simp
  ultimately show ?case by (simp add: c1 c2 phases_append)
qed

lemma phases_destroyRef:
  "phaseOf (Invoked og 0 OnInit) = Some p \<Longrightarrow> set (phases (destroyRef og label ref)) \<subseteq> {p}"
  by (cases og; cases "ref_onDestroy ref")
    (auto simp: destroyRef_def awaitCall_def
      split: sum.splits hookBehaviour.splits)

lemma phases_destroyRefs:
  "phaseOf (Invoked og 0 OnInit) = Some p \<Longrightarrow> set (phases (destroyRefs og label refs)) \<subseteq> {p}"
proof (induction refs)
  case Nil
  then show ?case by simp
next
  case (Cons r refs)
  with phases_destroyRef[of og p label r] show ?case by (auto simp: phases_append)
qed

lemma sorted_three:
  fixes a b c :: "nat list"
  assumes "set a \<subseteq> {0}" "set b \<subseteq> {1}" "set c \<subseteq> {2}"
  shows "sorted (a @ b @ c)"
proof -
  have s: "sorted xs" if "set xs \<subseteq> {k}" for xs :: "nat list" and k
    using that by (induction xs) auto
  from assms s[of a 0] s[of b 1] s[of c 2] show ?thesis
    by (fastforce simp: sorted_append)
qed

lemma cleanupRequest_frame:
  "singleton (fst (cleanupRequest reg R)) = singleton reg \<and> transient (fst (cleanupRequest reg R)) = transient reg
   \<and> request (fst (cleanupRequest reg R)) = AList.delete R (request reg)"
  by (auto simp: cleanupRequest_def delete_absent split: option.splits)

lemma cleanupRequests_frame:
  "singleton (fst (cleanupRequests reg ks)) = singleton reg \<and> transient (fst (cleanupRequests reg ks)) = transient reg
   \<and> request (fst (cleanupRequests reg ks)) = fold AList.delete ks (request reg)"
proof (induction ks arbitrary: reg)
  case Nil
  then show ?case by simp
next
  case (Cons k ks)
  obtain reg1 t1 where c1: "cleanupRequest reg k = (reg1, t1)" by (cases "cleanupRequest reg k")
  obtain reg2 t2 where c2: "cleanupRequests reg1 ks = (reg2, t2)" by (cases "cleanupRequests reg1 ks")
  from cleanupRequest_frame[of reg k] c1 Cons.IH[of reg1] c2 show ?case by simp
qed

lemma fold_delete_all: "fst ` set al \<subseteq> set ks \<Longrightarrow> fold AList.delete ks al = []"
proof (induction ks arbitrary: al)
  case Nil
  then show ?case by simp
next
  case (Cons k ks)
  have "fst ` set (AList.delete k al) \<subseteq> set ks"
    using Cons.prems by (auto simp: delete_filter)
  with Cons.IH show ?case by simp
qed

lemma cleanupRequests_covers:
  "r \<in> set ks \<Longrightarrow> map_of (request reg) r = Some refs \<Longrightarrow>
   set (cleanupRequestRefs r refs) \<subseteq> set (snd (cleanupRequests reg ks))"
proof (induction ks arbitrary: reg)
  case Nil
  then show ?case by simp
next
  case (Cons k ks)
  obtain reg1 t1 where c1: "cleanupRequest reg k = (reg1, t1)" by (cases "cleanupRequest reg k")
  obtain reg2 t2 where c2: "cleanupRequests reg1 ks = (reg2, t2)" by (cases "cleanupRequests reg1 ks")
  show ?case
  proof (cases "k = r")
    case True
    with Cons.prems(2) c1 have "set (cleanupRequestRefs r refs) \<subseteq> set t1"
      by (auto simp: cleanupRequest_def)
    then show ?thesis by (auto simp: c1 c2)
  next
    case False
    with Cons.prems(1) have "r \<in> set ks" by simp
    moreover from cleanupRequest_frame[of reg k] c1 False Cons.prems(2)
    have "map_of (request reg1) r = Some refs" by simp
    ultimately have "set (cleanupRequestRefs r refs) \<subseteq> set (snd (cleanupRequests reg1 ks))"
      by (rule Cons.IH)
    then show ?thesis by (auto simp: c1 c2)
  qed
qed

lemma destroyRef_invoked:
  "ref_onDestroy ref = Bound i h b \<Longrightarrow> Invoked og i h \<in> set (destroyRef og label ref)"
  by (auto simp: destroyRef_def awaitCall_def split: prod.splits sum.splits)

lemma destroyRefs_set:
  "set (destroyRefs og label refs) = (\<Union>ref \<in> set refs. set (destroyRef og label ref))"
  by (induction refs) auto


text \<open>A new container has the invariant of the request cache; registration keeps it.\<close>

lemma newContainer_owned: "requestCacheOwned newContainer"
  by (simp add: requestCacheOwned_def ownedBelow_def cachedFor_def newContainer_def)


subsection \<open>What a resolution retains\<close>

lemma retains_refl: "retains c c"
  by (simp add: retains_def)

lemma retains_trans:
  assumes "retains a b" "retains b c"
  shows "retains a c"
proof -
  have s: "map_of (singletons c) t = map_of (singletons a) t" if "map_of (singletons a) t \<noteq> None" for t
  proof -
    from assms(1) that have "map_of (singletons b) t = map_of (singletons a) t" by (simp add: retains_def)
    with assms(2) that show ?thesis by (simp add: retains_def)
  qed
  have r: "cachedFor c r t = cachedFor a r t" if "cachedFor a r t \<noteq> None" for r t
  proof -
    from assms(1) that have "cachedFor b r t = cachedFor a r t" by (simp add: retains_def)
    with assms(2) that show ?thesis by (simp add: retains_def)
  qed
  from assms have "resolutionStack c = resolutionStack a" by (simp add: retains_def)
  with s r show ?thesis by (simp add: retains_def)
qed

lemma retains_other:
  "singletons c' = singletons c \<Longrightarrow> requestInstances c' = requestInstances c
   \<Longrightarrow> resolutionStack c' = resolutionStack c \<Longrightarrow> retains c c'"
  by (simp add: retains_def cachedFor_def)

lemma retains_step:
  "retains c b \<Longrightarrow> singletons c' = singletons b \<Longrightarrow> requestInstances c' = requestInstances b
   \<Longrightarrow> resolutionStack c' = resolutionStack b \<Longrightarrow> retains c c'"
  by (erule retains_trans) (rule retains_other)

lemma retains_singleton_store:
  assumes "retains c b" "map_of (singletons c) tok = None"
  shows "retains c (b\<lparr>singletons := AList.update tok inst (singletons b)\<rparr>)"
  using assms by (auto simp: retains_def cachedFor_def update_conv')

lemma retains_new_bucket:
  "map_of (requestInstances c) r = None \<Longrightarrow>
   retains c (c\<lparr>requestInstances := AList.update r [] (requestInstances c)\<rparr>)"
  by (simp add: retains_def cachedFor_new_bucket)

lemma retains_withBucket: "retains c (withBucket c r)"
  by (auto simp: withBucket_def retains_new_bucket retains_refl split: option.splits)

lemma retains_request_store:
  assumes "retains c b" "cachedFor c r tok = None" "map_of (requestInstances b) r = Some m"
  shows "retains c (b\<lparr>requestInstances := AList.update r (AList.update tok inst m) (requestInstances b)\<rparr>)"
proof -
  have "cachedFor (b\<lparr>requestInstances := AList.update r (AList.update tok inst m) (requestInstances b)\<rparr>) r' t
      = cachedFor c r' t" if "cachedFor c r' t \<noteq> None" for r' t
  proof -
    from that assms(2) have "\<not> (r' = r \<and> t = tok)" by auto
    moreover from assms(1) that have "cachedFor b r' t = cachedFor c r' t" by (simp add: retains_def)
    ultimately show ?thesis by (auto simp: cachedFor_store[OF assms(3)])
  qed
  with assms(1) show ?thesis by (simp add: retains_def)
qed

lemma resolveDeps_retains:
  "resolveDeps rec c ds rid = Some (r, c') \<Longrightarrow> retaining rec \<Longrightarrow> retains c c'"
proof (induction ds arbitrary: c r c')
  case Nil
  then show ?case by (simp add: retains_refl)
next
  case (Cons d ds)
  from Cons.prems(1) obtain r1 c1 where r1: "rec c d rid = Some (r1, c1)"
    by (auto split: option.splits)
  with Cons.prems(2) have k1: "retains c c1" by (auto simp: retaining_def)
  show ?case
  proof (cases r1)
    case (Inl e)
    with Cons.prems(1) r1 have "c' = c1" by simp
    with k1 show ?thesis by simp
  next
    case (Inr v)
    with Cons.prems(1) r1 obtain r2 where "resolveDeps rec c1 ds rid = Some (r2, c')"
      by (auto split: option.splits sum.splits)
    with Cons.IH Cons.prems(2) have "retains c1 c'" by blast
    with k1 show ?thesis by (rule retains_trans)
  qed
qed

lemma createInstance_retains:
  assumes "createInstance rec env c target rid = Some (r, c')" "retaining rec"
  shows "retains c c'"
proof -
  define ds where "ds = (case paramtypes env target of Some ds \<Rightarrow> ds | None \<Rightarrow> [])"
  from assms(1) obtain r1 c1 where rd: "resolveDeps rec c ds rid = Some (r1, c1)"
    and c': "c' = c1 \<or> c' = c1\<lparr>nextObject := Suc (nextObject c1)\<rparr>"
    unfolding createInstance_def Let_def ds_def[symmetric] by (auto split: option.splits sum.splits)
  from resolveDeps_retains[OF rd assms(2)] have k: "retains c c1" .
  from c' show ?thesis
  proof
    assume "c' = c1"
    with k show ?thesis by simp
  next
    assume "c' = c1\<lparr>nextObject := Suc (nextObject c1)\<rparr>"
    with retains_step[OF k, of c'] show ?thesis by simp
  qed
qed

lemma resolveSingleton_retains:
  assumes "resolveSingleton rec env c tok target = Some (r, c')" "retaining rec"
  shows "retains c c'"
proof (cases "map_of (singletons c) tok")
  case (Some v)
  with assms show ?thesis by (simp add: resolveSingleton_def retains_refl)
next
  case None
  with assms(1) obtain r1 c1 where ci: "createInstance rec env c target None = Some (r1, c1)"
    and c': "c' = c1 \<or> c' = c1\<lparr>singletons := AList.update tok (projr r1) (singletons c1)\<rparr>"
    unfolding resolveSingleton_def by (auto split: option.splits sum.splits)
  from createInstance_retains[OF ci assms(2)] have k: "retains c c1" .
  from c' show ?thesis
  proof
    assume "c' = c1"
    with k show ?thesis by simp
  next
    assume "c' = c1\<lparr>singletons := AList.update tok (projr r1) (singletons c1)\<rparr>"
    with retains_singleton_store[OF k None] show ?thesis by simp
  qed
qed

lemma resolveRequest_retains:
  assumes "resolveRequest rec env c tok target rid = Some (r, c')" "retaining rec"
  shows "retains c c'"
proof -
  have k0: "retains c (withBucket c rid)" by (rule retains_withBucket)
  define m0 where "m0 = (case map_of (requestInstances (withBucket c rid)) rid of Some m \<Rightarrow> m | None \<Rightarrow> [])"
  show ?thesis
  proof (cases "map_of m0 tok")
    case (Some v)
    with assms(1) have "c' = withBucket c rid"
      unfolding resolveRequest_def Let_def withBucket_def[symmetric] m0_def[symmetric] by simp
    with k0 show ?thesis by simp
  next
    case None
    then have miss: "cachedFor c rid tok = None"
      using cachedFor_withBucket[of c rid rid tok] withBucket_has[of c rid]
      by (auto simp: m0_def cachedFor_def split: option.splits)
    from None assms(1) obtain r1 c1 where
      ci: "createInstance rec env (withBucket c rid) target (Some rid) = Some (r1, c1)"
      unfolding resolveRequest_def Let_def withBucket_def[symmetric] m0_def[symmetric]
      by (auto split: option.splits)
    from createInstance_retains[OF ci assms(2)] k0 have k1: "retains c c1" by (blast intro: retains_trans)
    show ?thesis
    proof (cases r1)
      case (Inl e)
      with assms(1) None ci have "c' = c1"
        unfolding resolveRequest_def Let_def withBucket_def[symmetric] m0_def[symmetric] by simp
      with k1 show ?thesis by simp
    next
      case (Inr inst)
      show ?thesis
      proof (cases "map_of (requestInstances c1) rid")
        case None
        with assms(1) \<open>map_of m0 tok = None\<close> ci Inr have "c' = c1"
          unfolding resolveRequest_def Let_def withBucket_def[symmetric] m0_def[symmetric] by simp
        with k1 show ?thesis by simp
      next
        case (Some m)
        with assms(1) \<open>map_of m0 tok = None\<close> ci Inr
        have "c' = c1\<lparr>requestInstances := AList.update rid (AList.update tok inst m) (requestInstances c1)\<rparr>"
          unfolding resolveRequest_def Let_def withBucket_def[symmetric] m0_def[symmetric] by simp
        with retains_request_store[OF k1 miss Some] show ?thesis by simp
      qed
    qed
  qed
qed

lemma provide_retains:
  assumes "provide rec env c tok rid p = Some (r, c')" "retaining rec"
  shows "retains c c'"
proof -
  have g: "retains c (c\<lparr>generatedIds := Suc (generatedIds c)\<rparr>)"
    and n: "retains c (c\<lparr>nextObject := Suc (nextObject c)\<rparr>)"
    by (simp_all add: retains_other)
  from assms(1) have
    "c' = c \<or> c' = c\<lparr>nextObject := Suc (nextObject c)\<rparr>
     \<or> (\<exists>target. resolveSingleton rec env c tok target = Some (r, c'))
     \<or> (\<exists>target. createInstance rec env c target rid = Some (r, c'))
     \<or> (\<exists>target q. resolveRequest rec env c tok target q = Some (r, c'))
     \<or> (\<exists>target q. resolveRequest rec env (c\<lparr>generatedIds := Suc (generatedIds c)\<rparr>) tok target q = Some (r, c'))"
    unfolding provide_def resolveTransient_def generateRequestId_def
    by (auto split: option.splits lifeCycleOpt.splits)
  then show ?thesis
    using assms(2) g n
    by (auto simp: retains_refl dest: resolveSingleton_retains createInstance_retains
        resolveRequest_retains intro: retains_trans)
qed

lemma register_retains: "retains c (register c tok p)"
  by (simp add: register_def Let_def retains_other)

lemma tryAutoRegister_retains: "tryAutoRegister env c target = (b, c') \<Longrightarrow> retains c c'"
  by (auto simp: tryAutoRegister_def register_retains retains_refl split: if_splits)

lemma resolveInternal_retains:
  "resolveInternal k rec env c tok rid = Some (r, c') \<Longrightarrow> retaining rec \<Longrightarrow> retains c c'"
proof (induction k arbitrary: c)
  case 0
  then show ?case by simp
next
  case (Suc k)
  show ?case
  proof (cases "map_of (providers c) tok")
    case (Some p)
    with Suc.prems show ?thesis by (auto dest: provide_retains)
  next
    case None
    show ?thesis
    proof (cases tok)
      case (ClassT target)
      obtain b c1 where t: "tryAutoRegister env c target = (b, c1)" by (cases "tryAutoRegister env c target")
      then have k1: "retains c c1" by (rule tryAutoRegister_retains)
      show ?thesis
      proof (cases b)
        case True
        with Suc.prems None ClassT t have "resolveInternal k rec env c1 tok rid = Some (r, c')" by simp
        with Suc.IH Suc.prems(2) have "retains c1 c'" by blast
        with k1 show ?thesis by (rule retains_trans)
      next
        case False
        with Suc.prems None ClassT t have "c' = c1" by simp
        with k1 show ?thesis by simp
      qed
    next
      case (StrT s)
      with Suc.prems None show ?thesis by (auto simp: retains_refl)
    next
      case (SymT s)
      with Suc.prems None show ?thesis by (auto simp: retains_refl)
    qed
  qed
qed

lemma handleDeferredResolution_retains:
  "handleDeferredResolution env c tok rid e = (r, c') \<Longrightarrow> retains c c'"
  unfolding handleDeferredResolution_def Let_def
  by (auto split: if_splits simp: retains_refl retains_other)

lemma retains_pop:
  assumes "retains (c\<lparr>resolutionStack := resolutionStack c @ [tok]\<rparr>) b" "tok \<notin> set (resolutionStack c)"
  shows "retains c (popStack b tok)"
  using assms by (simp add: retains_def popStack_def cachedFor_def)

lemma resolve_retains: "resolve n env c tok rid = Some (r, c') \<Longrightarrow> retains c c'"
proof (induction n arbitrary: c tok rid r c')
  case 0
  then show ?case by simp
next
  case (Suc n)
  from Suc.IH have kk: "retaining (resolve n env)" unfolding retaining_def by blast
  show ?case
  proof (cases "tok \<in> set (resolutionStack c)")
    case True
    with Suc.prems show ?thesis by (auto simp: retains_refl)
  next
    case False
    let ?c0 = "c\<lparr>resolutionStack := resolutionStack c @ [tok]\<rparr>"
    from Suc.prems False obtain r1 c1 where
      ri: "resolveInternal n (resolve n env) env ?c0 tok rid = Some (r1, c1)"
      by (auto split: option.splits)
    from resolveInternal_retains[OF ri kk] have k1: "retains ?c0 c1" .
    show ?thesis
    proof (cases r1)
      case (Inr v)
      with Suc.prems False ri have "c' = popStack c1 tok" by simp
      with retains_pop[OF k1 False] show ?thesis by simp
    next
      case (Inl e)
      show ?thesis
      proof (cases "enableDeferredResolution c1 \<and> isInitializationError e")
        case False
        with Suc.prems \<open>tok \<notin> set (resolutionStack c)\<close> ri Inl have "c' = popStack c1 tok" by auto
        with retains_pop[OF k1 \<open>tok \<notin> set (resolutionStack c)\<close>] show ?thesis by simp
      next
        case True
        obtain r2 c2 where h: "handleDeferredResolution env c1 tok rid e = (r2, c2)"
          by (cases "handleDeferredResolution env c1 tok rid e")
        with Suc.prems \<open>tok \<notin> set (resolutionStack c)\<close> ri Inl True have "c' = popStack c2 tok" by auto
        moreover from h have "retains c1 c2" by (rule handleDeferredResolution_retains)
        with k1 have "retains ?c0 c2" by (rule retains_trans)
        from retains_pop[OF this \<open>tok \<notin> set (resolutionStack c)\<close>]
        have "retains c (popStack c2 tok)" .
        ultimately show ?thesis by simp
      qed
    qed
  qed
qed

subsection \<open>Timer callbacks\<close>

lemma retaining_resolve: "retaining (resolve k env)"
  unfolding retaining_def by (blast intro: resolve_retains)


lemma settle_cases:
  "settle c pid st = c \<or> settle c pid st = c\<lparr>promises := (promises c)[pid := st]\<rparr>"
  by (simp add: settle_def)

lemma settle_keeps: "keeps c b \<Longrightarrow> keeps c (settle b pid st)"
  using settle_cases[of b pid st] by (auto simp: keeps_field)

lemma settle_retains: "retains c b \<Longrightarrow> retains c (settle b pid st)"
  using settle_cases[of b pid st] by (auto elim: retains_step)


lemma runTask_cases:
  assumes "runTask k env c t = Some c'"
  shows "\<exists>tok rid r c1 pid st. resolveInternal k (resolve k env) env c tok rid = Some (r, c1)
     \<and> (c' = settle (c1\<lparr>pendingResolutions := AList.delete tok (pendingResolutions c1)\<rparr>) pid st
        \<or> c' = settle c1 pid st
        \<or> c' = c1\<lparr>timers := timers c1 @ [Timer 100 (Retry2 pid tok rid)]\<rparr>)"
proof (cases t)
  case (Retry1 pid tok rid pending)
  with assms obtain r c1 where ri: "resolveInternal k (resolve k env) env c tok rid = Some (r, c1)"
    by (auto simp: runTask_def split: option.splits)
  with assms Retry1 have
    "c' = settle (c1\<lparr>pendingResolutions := AList.delete tok (pendingResolutions c1)\<rparr>) pid (Resolved (projr r))
     \<or> c' = settle c1 pid (Rejected (projl r))
     \<or> c' = c1\<lparr>timers := timers c1 @ [Timer 100 (Retry2 pid tok rid)]\<rparr>"
    by (auto simp: runTask_def split: sum.splits if_splits)
  with ri show ?thesis by blast
next
  case (Retry2 pid tok rid)
  with assms obtain r c1 where ri: "resolveInternal k (resolve k env) env c tok rid = Some (r, c1)"
    by (auto simp: runTask_def split: option.splits)
  with assms Retry2 have
    "c' = settle (c1\<lparr>pendingResolutions := AList.delete tok (pendingResolutions c1)\<rparr>) pid (Resolved (projr r))
     \<or> c' = settle c1 pid (Rejected (projl r))"
    by (auto simp: runTask_def split: sum.splits if_splits)
  with ri show ?thesis by blast
qed

lemma runTask_keeps:
  assumes "runTask k env c t = Some c'"
  shows "keeps c c'"
proof -
  from runTask_cases[OF assms] obtain tok rid r c1 pid st where
    ri: "resolveInternal k (resolve k env) env c tok rid = Some (r, c1)"
    and c': "c' = settle (c1\<lparr>pendingResolutions := AList.delete tok (pendingResolutions c1)\<rparr>) pid st
        \<or> c' = settle c1 pid st
        \<or> c' = c1\<lparr>timers := timers c1 @ [Timer 100 (Retry2 pid tok rid)]\<rparr>" by blast
  from resolveInternal_keeps[OF ri keeping_resolve] have k1: "keeps c c1" .
  from c' show ?thesis
    using settle_keeps[OF keeps_field(5)[OF k1]] settle_keeps[OF k1] keeps_field(7)[OF k1]
    by auto
qed

lemma runTask_retains:
  assumes "runTask k env c t = Some c'"
  shows "retains c c'"
proof -
  from runTask_cases[OF assms] obtain tok rid r c1 pid st where
    ri: "resolveInternal k (resolve k env) env c tok rid = Some (r, c1)"
    and c': "c' = settle (c1\<lparr>pendingResolutions := AList.delete tok (pendingResolutions c1)\<rparr>) pid st
        \<or> c' = settle c1 pid st
        \<or> c' = c1\<lparr>timers := timers c1 @ [Timer 100 (Retry2 pid tok rid)]\<rparr>" by blast
  from resolveInternal_retains[OF ri retaining_resolve] have k1: "retains c c1" .
  have a: "retains c (c1\<lparr>pendingResolutions := AList.delete tok (pendingResolutions c1)\<rparr>)"
    and b: "retains c (c1\<lparr>timers := timers c1 @ [Timer 100 (Retry2 pid tok rid)]\<rparr>)"
    by (rule retains_step[OF k1]; simp)+
  from c' show ?thesis
    using settle_retains[OF a] settle_retains[OF k1] b by auto
qed


lemma fireTimer_cases:
  assumes "fireTimer k env c i = Some c'"
  shows "c' = c \<or> (\<exists>ti t. runTask k env (c\<lparr>timers := ti\<rparr>) t = Some c')"
  using assms unfolding fireTimer_def by (auto split: if_splits timer.splits)

lemma fireTimer_keeps:
  assumes "fireTimer k env c i = Some c'"
  shows "keeps c c'"
proof -
  from fireTimer_cases[OF assms] show ?thesis
  proof
    assume "c' = c"
    then show ?thesis by (simp add: keeps_refl)
  next
    assume "\<exists>ti t. runTask k env (c\<lparr>timers := ti\<rparr>) t = Some c'"
    then obtain ti t where "runTask k env (c\<lparr>timers := ti\<rparr>) t = Some c'" by blast
    then have "keeps (c\<lparr>timers := ti\<rparr>) c'" by (rule runTask_keeps)
    with keeps_field(7)[OF keeps_refl, of c ti] show ?thesis by (rule keeps_trans)
  qed
qed

lemma fireTimer_retains:
  assumes "fireTimer k env c i = Some c'"
  shows "retains c c'"
proof -
  from fireTimer_cases[OF assms] show ?thesis
  proof
    assume "c' = c"
    then show ?thesis by (simp add: retains_refl)
  next
    assume "\<exists>ti t. runTask k env (c\<lparr>timers := ti\<rparr>) t = Some c'"
    then obtain ti t where "runTask k env (c\<lparr>timers := ti\<rparr>) t = Some c'" by blast
    then have "retains (c\<lparr>timers := ti\<rparr>) c'" by (rule runTask_retains)
    moreover have "retains c (c\<lparr>timers := ti\<rparr>)" by (simp add: retains_other)
    ultimately show ?thesis by (blast intro: retains_trans)
  qed
qed




subsection \<open>Later containers\<close>

lemma later_stack: "later env tok kept c c' \<Longrightarrow> resolutionStack c' = resolutionStack c"
proof (induction rule: later.induct)
  case (later_resolve c1 n t rid r c2)
  from resolve_retains[OF later_resolve.hyps(2)] later_resolve.IH show ?case by (simp add: retains_def)
next
  case (later_timer c1 k i c2)
  from fireTimer_retains[OF later_timer.hyps(2)] later_timer.IH show ?case by (simp add: retains_def)
qed (simp_all add: register_def Let_def clearRequestInstances_def setDeferredResolution_def)

lemma later_provider:
  "later env tok kept c c' \<Longrightarrow> map_of (providers c) tok = Some p \<Longrightarrow> map_of (providers c') tok = Some p"
proof (induction rule: later.induct)
  case (later_resolve c1 n t rid r c2)
  from resolve_keeps[OF later_resolve.hyps(2)] later_resolve.IH later_resolve.prems
  show ?case by (auto simp: keeps_def)
next
  case (later_timer c1 k i c2)
  from fireTimer_keeps[OF later_timer.hyps(2)] later_timer.IH later_timer.prems
  show ?case by (auto simp: keeps_def)
qed (simp_all add: register_def Let_def clearRequestInstances_def setDeferredResolution_def update_conv')

lemma later_singleton:
  "later env tok kept c c' \<Longrightarrow> map_of (singletons c) tok = Some v \<Longrightarrow> map_of (singletons c') tok = Some v"
proof (induction rule: later.induct)
  case (later_resolve c1 n t rid r c2)
  from resolve_retains[OF later_resolve.hyps(2)] later_resolve.IH later_resolve.prems
  show ?case by (auto simp: retains_def)
next
  case (later_timer c1 k i c2)
  from fireTimer_retains[OF later_timer.hyps(2)] later_timer.IH later_timer.prems
  show ?case by (auto simp: retains_def)
qed (simp_all add: register_def Let_def clearRequestInstances_def setDeferredResolution_def)




subsection \<open>Cached instances in later containers\<close>

lemma singleton_first:
  assumes prov: "map_of (providers c) tok = Some p" "useValue p = None" "useFactory p = None"
      "useClass p = Some target" "scope p = None \<or> scope p = Some Singleton"
    and first: "resolve n env c tok rid = Some (Inr v, c1)" and np: "\<not> isPromise v"
  shows "map_of (singletons c1) tok = Some v \<and> map_of (providers c1) tok = Some p
     \<and> tok \<notin> set (resolutionStack c1)"
proof -
  from resolve_returned[OF first np] obtain k c' where
    notin: "tok \<notin> set (resolutionStack c)"
    and ri: "resolveInternal k (resolve k env) env (c\<lparr>resolutionStack := resolutionStack c @ [tok]\<rparr>) tok rid = Some (Inr v, c')"
    and c1: "c1 = popStack c' tok" by blast
  let ?c0 = "c\<lparr>resolutionStack := resolutionStack c @ [tok]\<rparr>"
  from prov(1) have p0: "map_of (providers ?c0) tok = Some p" by simp
  from resolveInternal_provided[OF ri p0] provide_singleton[OF prov(2-5)]
  have rs: "resolveSingleton (resolve k env) env ?c0 tok target = Some (Inr v, c')" by simp
  then have cached: "map_of (singletons c') tok = Some v" by (rule resolveSingleton_cached)
  from resolveInternal_keeps[OF ri keeping_resolve] p0 have p': "map_of (providers c') tok = Some p"
    by (auto simp: keeps_def)
  from cached p' show ?thesis by (simp add: c1 popStack_def)
qed

lemma singleton_hit:
  assumes "map_of (providers c) tok = Some p" "useValue p = None" "useFactory p = None"
      "useClass p = Some target" "scope p = None \<or> scope p = Some Singleton"
    and "map_of (singletons c) tok = Some v" "tok \<notin> set (resolutionStack c)"
  shows "resolve (Suc (Suc m)) env c tok rid = Some (Inr v, c)"
  using assms by (auto simp: provide_def resolveSingleton_def popStack_push)

lemma singleton_later:
  assumes prov: "map_of (providers c) tok = Some p" "useValue p = None" "useFactory p = None"
      "useClass p = Some target" "scope p = None \<or> scope p = Some Singleton"
    and first: "resolve n env c tok rid = Some (Inr v, c1)" and np: "\<not> isPromise v"
    and after: "later env tok kept c1 c2"
  shows "resolve (Suc (Suc m)) env c2 tok rid' = Some (Inr v, c2)"
proof -
  from singleton_first[OF prov first np] have
    s1: "map_of (singletons c1) tok = Some v" and p1: "map_of (providers c1) tok = Some p"
    and n1: "tok \<notin> set (resolutionStack c1)" by simp_all
  from later_stack[OF after] n1 have "tok \<notin> set (resolutionStack c2)" by simp
  with later_provider[OF after p1] prov(2-5) later_singleton[OF after s1]
  show ?thesis by (rule singleton_hit)
qed







subsection \<open>The bucket that applyLifecycle fills\<close>





section \<open>The claims\<close>

text \<open>
  C1, as the code has it. A class provider with scope \<open>singleton\<close> (given or by
  default): once a resolve of its token has returned an instance, every resolve of the
  token in every later container returns that instance and changes nothing, whatever
  was resolved, registered under another token, cleared or fired in between. A value
  provider: every resolve returns the value, whatever the scope. A factory provider:
  every resolve calls the factory and caches nothing, whatever the scope.
\<close>

theorem caching_by_provider_strategy:
  assumes "map_of (providers c) tok = Some p"
  shows "(useValue p = None \<and> useFactory p = None \<and> useClass p = Some target
            \<and> (scope p = None \<or> scope p = Some Singleton)
            \<and> resolve n env c tok rid = Some (Inr v, c1) \<and> \<not> isPromise v
            \<and> later env tok kept c1 c2
          \<longrightarrow> resolve (Suc (Suc m)) env c2 tok rid' = Some (Inr v, c2))
       \<and> (useValue p = Some w \<and> tok \<notin> set (resolutionStack c)
          \<longrightarrow> resolve (Suc (Suc m)) env c tok rid = Some (Inr w, c))
       \<and> (useValue p = None \<and> useFactory p = Some f \<and> tok \<notin> set (resolutionStack c)
            \<and> f (nextObject c) = Inr u
          \<longrightarrow> resolve (Suc (Suc m)) env c tok rid
                = Some (Inr u, c\<lparr>nextObject := Suc (nextObject c)\<rparr>))"
  using assms singleton_later[of c tok p target n env rid v c1 kept c2 m rid']
    value_provider[of c tok p w m env rid] factory_provider[of c tok p f u m env rid]
  by blast

theorem caching_by_provider_strategy_witness:
  "resolve (Suc (Suc 0)) noMetadata pairContainer (ClassT ''Greeter'') None
     = Some (Inr (Obj 0 ''Greeter'' []),
             pairContainer\<lparr>singletons := [(ClassT ''Greeter'', Obj 0 ''Greeter'' [])],
                           nextObject := 1\<rparr>)
   \<and> resolve (Suc (Suc 0)) noMetadata
        (pairContainer\<lparr>singletons := [(ClassT ''Greeter'', Obj 0 ''Greeter'' [])],
                       nextObject := 1\<rparr>) (ClassT ''Mailer'') None
     = Some (Inr (Obj 1 ''Mailer'' []),
             pairContainer\<lparr>singletons := [(ClassT ''Greeter'', Obj 0 ''Greeter'' []),
                                           (ClassT ''Mailer'', Obj 1 ''Mailer'' [])],
                           nextObject := 2\<rparr>)
   \<and> resolve (Suc (Suc 0)) noMetadata
        (pairContainer\<lparr>singletons := [(ClassT ''Greeter'', Obj 0 ''Greeter'' []),
                                      (ClassT ''Mailer'', Obj 1 ''Mailer'' [])],
                       nextObject := 2\<rparr>) (ClassT ''Greeter'') None
     = Some (Inr (Obj 0 ''Greeter'' []),
             pairContainer\<lparr>singletons := [(ClassT ''Greeter'', Obj 0 ''Greeter'' []),
                                           (ClassT ''Mailer'', Obj 1 ''Mailer'' [])],
                           nextObject := 2\<rparr>)
   \<and> resolve (Suc (Suc 0)) noMetadata factoryContainer (StrT ''API_KEY'') None
     = Some (Inr (Lit ''secret-key''), factoryContainer)
   \<and> resolve (Suc (Suc 0)) noMetadata factoryContainer (ClassT ''LoggerService'') None
     = Some (Inr (Obj 0 ''LoggerService'' []), factoryContainer\<lparr>nextObject := Suc 0\<rparr>)"
proof -
  let ?G = "ClassT ''Greeter''"
  let ?s1 = "pairContainer\<lparr>singletons := [(?G, Obj 0 ''Greeter'' [])], nextObject := 1\<rparr>"
  let ?s2 = "pairContainer\<lparr>singletons := [(?G, Obj 0 ''Greeter'' []),
                                           (ClassT ''Mailer'', Obj 1 ''Mailer'' [])],
                           nextObject := 2\<rparr>"
  note defs = pairContainer_def newContainer_def register_def classProvider_def noMetadata_def
    provide_def resolveSingleton_def createInstance_def popStack_def
  have first: "resolve (Suc (Suc 0)) noMetadata pairContainer ?G None
     = Some (Inr (Obj 0 ''Greeter'' []), ?s1)"
    by (simp add: defs)
  have between: "resolve (Suc (Suc 0)) noMetadata ?s1 (ClassT ''Mailer'') None
     = Some (Inr (Obj 1 ''Mailer'' []), ?s2)"
    by (simp add: defs)
  have after: "later noMetadata ?G None ?s1 ?s2"
    by (rule later_resolve[OF later_now between])
  have pc: "map_of (providers pairContainer) ?G = Some (classProvider ''Greeter'' Singleton)"
    by (simp add: pairContainer_def newContainer_def register_def)
  have pv: "map_of (providers factoryContainer) (StrT ''API_KEY'')
      = Some (valueProvider (Lit ''secret-key''))"
    and pf: "map_of (providers factoryContainer) (ClassT ''LoggerService'')
      = Some (factoryProvider loggerFactory Singleton)"
    and st: "resolutionStack factoryContainer = []" and no: "nextObject factoryContainer = 0"
    by (simp_all add: factoryContainer_def newContainer_def register_def)
  from caching_by_provider_strategy[OF pc, where target = "''Greeter''" and n = "Suc (Suc 0)"
      and env = noMetadata and rid = None and v = "Obj 0 ''Greeter'' []" and ?c1.0 = ?s1
      and kept = None and ?c2.0 = ?s2 and m = 0 and rid' = None] first after
  have again: "resolve (Suc (Suc 0)) noMetadata ?s2 ?G None = Some (Inr (Obj 0 ''Greeter'' []), ?s2)"
    by (simp add: classProvider_def)
  from caching_by_provider_strategy[OF pv, where w = "Lit ''secret-key''" and m = 0
      and env = noMetadata and rid = None]
  have third: "resolve (Suc (Suc 0)) noMetadata factoryContainer (StrT ''API_KEY'') None
     = Some (Inr (Lit ''secret-key''), factoryContainer)"
    by (simp add: valueProvider_def st)
  from caching_by_provider_strategy[OF pf, where m = 0 and env = noMetadata and rid = None
      and f = loggerFactory and u = "Obj 0 ''LoggerService'' []"]
  have fourth: "resolve (Suc (Suc 0)) noMetadata factoryContainer (ClassT ''LoggerService'') None
     = Some (Inr (Obj 0 ''LoggerService'' []), factoryContainer\<lparr>nextObject := Suc 0\<rparr>)"
    by (simp add: factoryProvider_def st no loggerFactory_def)
  from first between again third fourth show ?thesis by blast
qed

text \<open>
  C1, as stated, fails for a factory provider registered with scope \<open>singleton\<close>:
  two resolves in sequence call the factory twice and return two objects.
\<close>

theorem factory_singleton_not_cached:
  "resolve (Suc (Suc 0)) noMetadata factoryContainer (ClassT ''LoggerService'') None
     = Some (Inr (Obj 0 ''LoggerService'' []), factoryContainer\<lparr>nextObject := 1\<rparr>)
   \<and> resolve (Suc (Suc 0)) noMetadata (factoryContainer\<lparr>nextObject := 1\<rparr>)
        (ClassT ''LoggerService'') None
     = Some (Inr (Obj 1 ''LoggerService'' []), factoryContainer\<lparr>nextObject := 2\<rparr>)
   \<and> Obj 0 ''LoggerService'' [] \<noteq> Obj 1 ''LoggerService'' []"
  by (simp add: factoryContainer_def newContainer_def register_def classProvider_def
      valueProvider_def factoryProvider_def noMetadata_def provide_def loggerFactory_def
      popStack_def)

text \<open>
  C2. With \<open>ServiceA(serviceB)\<close> and \<open>ServiceB(serviceA)\<close> registered as singletons
  and deferred resolution enabled, \<open>resolve(ServiceA)\<close> throws the error whose message
  ends in \<open>ServiceA -> ServiceB -> ServiceA\<close>; it is thrown, not deferred: no pending
  record, promise or timer is made. The container is as before, its resolution stack
  empty, and a resolve of another token succeeds.
\<close>

theorem circular_dependency_is_thrown:
  "resolve (Suc (Suc (Suc n))) (env\<lparr>paramtypes := mutualParamtypes\<rparr>) mutualContainer
       (ClassT ''ServiceA'') rid
     = Some (Inl (Error (''Depend'' @ [CHR 0xC3, CHR 0xAA]
               @ ''ncia circular detectada: ServiceA -> ServiceB -> ServiceA'')),
             mutualContainer)
   \<and> enableDeferredResolution mutualContainer
   \<and> resolutionStack mutualContainer = [] \<and> pendingResolutions mutualContainer = []
   \<and> promises mutualContainer = [] \<and> timers mutualContainer = []
   \<and> resolve (Suc (Suc m)) (env\<lparr>paramtypes := mutualParamtypes\<rparr>) mutualContainer
       (StrT ''API_KEY'') rid'
     = Some (Inr (Lit ''secret-key''), mutualContainer)"
  by (simp add: mutualContainer_def mutualParamtypes_def newContainer_def register_def
      classProvider_def valueProvider_def provide_def resolveSingleton_def createInstance_def
      isInitializationError_def circularMessage_def popStack_def)

text \<open>
  C3, as the code has it. A token without provider whose UnresolvedProvider message
  matches the initialization-order heuristic, resolved from outside any resolution.
  With deferred resolution disabled the resolve throws that error at once. With it
  enabled and no pending record, the resolve writes a pending record with one attempt
  and returns a waiting promise with a retry scheduled after 50 ms; when that retry
  fails a second retry is scheduled after 100 ms; when that one fails the promise is
  rejected with the UnresolvedProvider error of that failure, and the pending record
  still counts one attempt. Every further deferred resolve of the token adds one to the
  attempts, and a resolve that finds three attempts recorded throws the error
  "could not resolve after multiple attempts", which quotes the recorded error.
\<close>

theorem deferred_resolution_steps:
  assumes "unregistered env c tok" "tok \<notin> set (resolutionStack c)"
    "isInitializationError (unresolvedError env c tok)"
  shows "(\<not> enableDeferredResolution c
          \<longrightarrow> resolve (Suc (Suc n)) env c tok rid = Some (Inl (unresolvedError env c tok), c))
       \<and> (enableDeferredResolution c \<and> map_of (pendingResolutions c) tok = None
          \<longrightarrow> resolve (Suc (Suc n)) env c tok rid
                = Some (Inr (PromiseV (length (promises c))), deferredOnce env c tok rid)
              \<and> fireTimer (Suc k) env (deferredOnce env c tok rid) (length (timers c))
                = Some ((deferredOnce env c tok rid)\<lparr>timers := timers c @
                          [Timer 100 (Retry2 (length (promises c)) tok rid)]\<rparr>)
              \<and> fireTimer (Suc k) env
                  ((deferredOnce env c tok rid)\<lparr>timers := timers c @
                          [Timer 100 (Retry2 (length (promises c)) tok rid)]\<rparr>)
                  (length (timers c))
                = Some ((deferredOnce env c tok rid)\<lparr>timers := timers c,
                          promises := promises c @ [Rejected (unresolvedError env c tok)]\<rparr>))
       \<and> (enableDeferredResolution c \<and> map_of (pendingResolutions c) tok = Some pd
            \<and> attempts pd < 3
          \<longrightarrow> (\<exists>c'. resolve (Suc (Suc n)) env c tok rid
                       = Some (Inr (PromiseV (length (promises c))), c')
                  \<and> map_option attempts (map_of (pendingResolutions c') tok)
                       = Some (Suc (attempts pd))))
       \<and> (enableDeferredResolution c \<and> map_of (pendingResolutions c) tok = Some pd
            \<and> 3 \<le> attempts pd
          \<longrightarrow> resolve (Suc (Suc n)) env c tok rid
                = Some (Inl (Error (exhaustedMessage (getTokenName tok)
                                      (message (lastError pd)))), c))"
proof -
  have "\<exists>c'. resolve (Suc (Suc n)) env c tok rid = Some (Inr (PromiseV (length (promises c))), c')
        \<and> map_option attempts (map_of (pendingResolutions c') tok) = Some (Suc (attempts pd))"
    if "enableDeferredResolution c" "map_of (pendingResolutions c) tok = Some pd" "attempts pd < 3"
    using resolve_counts_attempts[OF assms(1,2) that(1) assms(3) that(2,3), of n rid] by blast
  with resolve_disabled[OF assms(1,2), of n rid]
    resolve_deferred[OF assms(1,2) _ assms(3), of n rid]
    first_retry[OF assms(1), of k rid] second_retry[OF assms(1), of k rid]
    resolve_exhausted[OF assms(1,2) _ assms(3), of pd n rid]
  show ?thesis by blast
qed

theorem deferred_resolution_steps_witness:
  "resolve (Suc (Suc 0)) noMetadata (setDeferredResolution newContainer False)
       (StrT ''ReferenceError'') None
     = Some (Inl (unresolvedError noMetadata newContainer (StrT ''ReferenceError'')),
             setDeferredResolution newContainer False)
   \<and> resolve (Suc (Suc 0)) noMetadata newContainer (StrT ''ReferenceError'') None
     = Some (Inr (PromiseV 0), deferredOnce noMetadata newContainer (StrT ''ReferenceError'') None)
   \<and> map_option attempts (map_of (pendingResolutions
          (deferredOnce noMetadata newContainer (StrT ''ReferenceError'') None))
          (StrT ''ReferenceError'')) = Some 1
   \<and> fireTimer (Suc 0) noMetadata
        (deferredOnce noMetadata newContainer (StrT ''ReferenceError'') None) 0
     = Some ((deferredOnce noMetadata newContainer (StrT ''ReferenceError'') None)
               \<lparr>timers := [Timer 100 (Retry2 0 (StrT ''ReferenceError'') None)]\<rparr>)
   \<and> fireTimer (Suc 0) noMetadata
        ((deferredOnce noMetadata newContainer (StrT ''ReferenceError'') None)
               \<lparr>timers := [Timer 100 (Retry2 0 (StrT ''ReferenceError'') None)]\<rparr>) 0
     = Some ((deferredOnce noMetadata newContainer (StrT ''ReferenceError'') None)
               \<lparr>timers := [],
                promises := [Rejected (unresolvedError noMetadata newContainer
                                         (StrT ''ReferenceError''))]\<rparr>)
   \<and> resolve (Suc (Suc 0)) noMetadata
        (newContainer\<lparr>pendingResolutions := [(StrT ''ReferenceError'',
            \<lparr> token = StrT ''ReferenceError'', attempts = 3, lastError = Error ''first'',
              dependencies = [] \<rparr>)]\<rparr>) (StrT ''ReferenceError'') None
     = Some (Inl (Error (exhaustedMessage ''ReferenceError'' ''first'')),
             newContainer\<lparr>pendingResolutions := [(StrT ''ReferenceError'',
            \<lparr> token = StrT ''ReferenceError'', attempts = 3, lastError = Error ''first'',
              dependencies = [] \<rparr>)]\<rparr>)"
proof -
  let ?tok = "StrT ''ReferenceError''"
  let ?full = "newContainer\<lparr>pendingResolutions := [(?tok,
            \<lparr> token = ?tok, attempts = 3, lastError = Error ''first'', dependencies = [] \<rparr>)]\<rparr>"
  have m: "isInitializationError (unresolvedError noMetadata c ?tok)" for c
    by (rule unresolved_matches) simp
  have u0: "unregistered noMetadata newContainer ?tok"
    and u1: "unregistered noMetadata (setDeferredResolution newContainer False) ?tok"
    and u2: "unregistered noMetadata ?full ?tok"
    by (simp_all add: unregistered_def newContainer_def setDeferredResolution_def)
  have e: "unresolvedError noMetadata (setDeferredResolution newContainer False) ?tok
      = unresolvedError noMetadata newContainer ?tok"
    by (rule unresolvedError_providers) (simp add: setDeferredResolution_def)
  from deferred_resolution_steps[OF u1 _ m, where n = 0 and rid = None]
  have a: "resolve (Suc (Suc 0)) noMetadata (setDeferredResolution newContainer False) ?tok None
     = Some (Inl (unresolvedError noMetadata newContainer ?tok),
             setDeferredResolution newContainer False)"
    by (simp add: e) (simp add: setDeferredResolution_def newContainer_def)
  from deferred_resolution_steps[OF u0 _ m, where n = 0 and rid = None and k = 0]
  have b: "resolve (Suc (Suc 0)) noMetadata newContainer ?tok None
     = Some (Inr (PromiseV 0), deferredOnce noMetadata newContainer ?tok None)
   \<and> fireTimer (Suc 0) noMetadata (deferredOnce noMetadata newContainer ?tok None) 0
     = Some ((deferredOnce noMetadata newContainer ?tok None)
               \<lparr>timers := [Timer 100 (Retry2 0 ?tok None)]\<rparr>)
   \<and> fireTimer (Suc 0) noMetadata
        ((deferredOnce noMetadata newContainer ?tok None)
               \<lparr>timers := [Timer 100 (Retry2 0 ?tok None)]\<rparr>) 0
     = Some ((deferredOnce noMetadata newContainer ?tok None)
               \<lparr>timers := [],
                promises := [Rejected (unresolvedError noMetadata newContainer ?tok)]\<rparr>)"
    by (simp add: newContainer_def)
  have c: "map_option attempts (map_of (pendingResolutions
          (deferredOnce noMetadata newContainer ?tok None)) ?tok) = Some 1"
    by (simp add: deferredOnce_def newContainer_def)
  from deferred_resolution_steps[OF u2 _ m, where n = 0 and rid = None and pd =
      "\<lparr> token = ?tok, attempts = 3, lastError = Error ''first'', dependencies = [] \<rparr>"]
  have d: "resolve (Suc (Suc 0)) noMetadata ?full ?tok None
     = Some (Inl (Error (exhaustedMessage ''ReferenceError'' ''first'')), ?full)"
    by (simp add: newContainer_def)
  from a b c d show ?thesis by blast
qed

text \<open>
  C3, as stated, fails: on the third failure the promise is rejected with the
  UnresolvedProvider error of that attempt, which is not the error "could not resolve
  after multiple attempts" around the original cause.
\<close>

theorem third_failure_is_not_escalated:
  "resolve (Suc (Suc 0)) noMetadata newContainer (StrT ''ReferenceError'') None
     = Some (Inr (PromiseV 0), deferredOnce noMetadata newContainer (StrT ''ReferenceError'') None)
   \<and> fireTimer (Suc 0) noMetadata
        (deferredOnce noMetadata newContainer (StrT ''ReferenceError'') None) 0
     = Some ((deferredOnce noMetadata newContainer (StrT ''ReferenceError'') None)
               \<lparr>timers := [Timer 100 (Retry2 0 (StrT ''ReferenceError'') None)]\<rparr>)
   \<and> fireTimer (Suc 0) noMetadata
        ((deferredOnce noMetadata newContainer (StrT ''ReferenceError'') None)
               \<lparr>timers := [Timer 100 (Retry2 0 (StrT ''ReferenceError'') None)]\<rparr>) 0
     = Some ((deferredOnce noMetadata newContainer (StrT ''ReferenceError'') None)
               \<lparr>timers := [],
                promises := [Rejected (unresolvedError noMetadata newContainer
                                         (StrT ''ReferenceError''))]\<rparr>)
   \<and> unresolvedError noMetadata newContainer (StrT ''ReferenceError'')
       \<noteq> Error (exhaustedMessage ''ReferenceError''
                  (message (unresolvedError noMetadata newContainer (StrT ''ReferenceError''))))"
proof -
  let ?tok = "StrT ''ReferenceError''"
  have m: "isInitializationError (unresolvedError noMetadata newContainer ?tok)"
    by (rule unresolved_matches) simp
  have u0: "unregistered noMetadata newContainer ?tok"
    by (simp add: unregistered_def newContainer_def)
  have st: "?tok \<notin> set (resolutionStack newContainer)" "enableDeferredResolution newContainer"
    "map_of (pendingResolutions newContainer) ?tok = None" "timers newContainer = []"
    "promises newContainer = []"
    by (simp_all add: newContainer_def)
  from resolve_deferred[OF u0 st(1,2) m st(3), of 0 None]
    first_retry[OF u0, of 0 None] second_retry[OF u0, of 0 None]
  have steps: "resolve (Suc (Suc 0)) noMetadata newContainer ?tok None
     = Some (Inr (PromiseV 0), deferredOnce noMetadata newContainer ?tok None)
   \<and> fireTimer (Suc 0) noMetadata (deferredOnce noMetadata newContainer ?tok None) 0
     = Some ((deferredOnce noMetadata newContainer ?tok None)
               \<lparr>timers := [Timer 100 (Retry2 0 ?tok None)]\<rparr>)
   \<and> fireTimer (Suc 0) noMetadata
        ((deferredOnce noMetadata newContainer ?tok None)
               \<lparr>timers := [Timer 100 (Retry2 0 ?tok None)]\<rparr>) 0
     = Some ((deferredOnce noMetadata newContainer ?tok None)
               \<lparr>timers := [],
                promises := [Rejected (unresolvedError noMetadata newContainer ?tok)]\<rparr>)"
    by (simp add: st)
  have "unresolvedError noMetadata newContainer ?tok
       \<noteq> Error (exhaustedMessage ''ReferenceError''
                  (message (unresolvedError noMetadata newContainer ?tok)))"
    by (simp add: unresolvedError_def unresolvedMessage_def exhaustedMessage_def)
  with steps show ?thesis by blast
qed






text \<open>
  C6. In what \<open>shutdown\<close> invokes, the hooks of the request buckets come first, then
  those of the transient instances, then those of the singletons; when the first loop
  has ended no request bucket is left; every bound \<open>onRequestEnd\<close> of a request
  bucket and every bound \<open>onDestroy\<close> of a transient or singleton reference is
  invoked; afterwards the three buckets are empty.
\<close>

theorem shutdown_order:
  assumes "shutdown reg = (reg', tr)"
  shows "sorted (phases tr)
     \<and> request reg' = [] \<and> transient reg' = [] \<and> singleton reg' = []
     \<and> request (fst (cleanupRequests reg (map fst (request reg)))) = []
     \<and> (\<forall>r refs. map_of (request reg) r = Some refs \<longrightarrow>
          (\<forall>ref \<in> set refs. \<forall>i h b. ref_onRequestEnd ref = Bound i h b \<longrightarrow>
             Invoked (ByRequestCleanup r) i h \<in> set tr))
     \<and> (\<forall>ref \<in> set (transient reg). \<forall>i h b. ref_onDestroy ref = Bound i h b \<longrightarrow>
          Invoked ByTransientCleanup i h \<in> set tr)
     \<and> (\<forall>ref \<in> set (singleton reg). \<forall>i h b. ref_onDestroy ref = Bound i h b \<longrightarrow>
          Invoked BySingletonCleanup i h \<in> set tr)"
proof -
  obtain reg1 t1 where c1: "cleanupRequests reg (map fst (request reg)) = (reg1, t1)"
    by (cases "cleanupRequests reg (map fst (request reg))")
  from cleanupRequests_frame[of reg "map fst (request reg)"] c1
  have f1: "singleton reg1 = singleton reg" "transient reg1 = transient reg" "request reg1 = []"
    by (simp_all add: fold_delete_all)
  let ?t2 = "destroyRefs ByTransientCleanup ''Erro no cleanup transient:'' (transient reg)"
  let ?t3 = "destroyRefs BySingletonCleanup ''Erro no cleanup singleton:'' (singleton reg)"
  from assms c1 f1 have reg': "reg' = reg1\<lparr>transient := [], singleton := []\<rparr>"
    and tr: "\<exists>l0 l2 l3 l4. tr = [InfoLogged l0] @ t1 @ (InfoLogged l2 # ?t2) @ [InfoLogged l3] @ ?t3 @ [InfoLogged l4]"
    by (auto simp: shutdown_def cleanupTransient_def)
  from tr obtain l0 l2 l3 l4 where
    tr': "tr = [InfoLogged l0] @ t1 @ (InfoLogged l2 # ?t2) @ [InfoLogged l3] @ ?t3 @ [InfoLogged l4]"
    by blast
  have ph: "phases tr = phases t1 @ phases ?t2 @ phases ?t3"
    by (simp add: tr' phases_append)
  from phases_cleanupRequests[of reg "map fst (request reg)"] c1 have p1: "set (phases t1) \<subseteq> {0}" by simp
  have p2: "set (phases ?t2) \<subseteq> {1}" by (rule phases_destroyRefs) simp
  have p3: "set (phases ?t3) \<subseteq> {2}" by (rule phases_destroyRefs) simp
  have sorted: "sorted (phases tr)" unfolding ph using p1 p2 p3 by (rule sorted_three)
  have req: "Invoked (ByRequestCleanup r) i h \<in> set tr"
    if "map_of (request reg) r = Some refs" "ref \<in> set refs" "ref_onRequestEnd ref = Bound i h b"
    for r refs ref i h b
  proof -
    from that(1) have "r \<in> set (map fst (request reg))" by (auto dest: map_of_SomeD intro: rev_image_eqI)
    from cleanupRequests_covers[OF this that(1)] c1
    have "set (cleanupRequestRefs r refs) \<subseteq> set t1" by simp
    moreover from cleanupRequestRef_end_invoked[OF that(3)] that(2)
    have "Invoked (ByRequestCleanup r) i h \<in> set (cleanupRequestRefs r refs)"
      by (auto simp: cleanupRequestRefs_set)
    ultimately show ?thesis by (auto simp: tr')
  qed
  have trn: "Invoked ByTransientCleanup i h \<in> set tr"
    if "ref \<in> set (transient reg)" "ref_onDestroy ref = Bound i h b" for ref i h b
    using destroyRef_invoked[OF that(2)] that(1) by (auto simp: tr' destroyRefs_set)
  have sng: "Invoked BySingletonCleanup i h \<in> set tr"
    if "ref \<in> set (singleton reg)" "ref_onDestroy ref = Bound i h b" for ref i h b
    using destroyRef_invoked[OF that(2)] that(1) by (auto simp: tr' destroyRefs_set)
  from sorted reg' f1 c1 req trn sng show ?thesis by auto
qed

theorem shutdown_order_witness:
  "phases (snd (shutdown demoRegistry)) = [0, 0, 1, 2]
   \<and> sorted (phases (snd (shutdown demoRegistry)))
   \<and> fst (shutdown demoRegistry) = emptyRegistry
   \<and> Invoked (ByRequestCleanup ''req_a'') 3 OnRequestEnd \<in> set (snd (shutdown demoRegistry))
   \<and> Invoked ByTransientCleanup 2 OnDestroy \<in> set (snd (shutdown demoRegistry))
   \<and> Invoked BySingletonCleanup 1 OnDestroy \<in> set (snd (shutdown demoRegistry))"
proof -
  have s: "shutdown demoRegistry = (fst (shutdown demoRegistry), snd (shutdown demoRegistry))"
    by simp
  have e: "phases (snd (shutdown demoRegistry)) = [0, 0, 1, 2]"
    "fst (shutdown demoRegistry) = emptyRegistry"
    by (simp_all add: shutdown_def demoRegistry_def emptyRegistry_def cleanupRequest_def
        cleanupTransient_def cleanupRequestRef_def destroyRef_def awaitCall_def)
  have m: "map_of (request demoRegistry) ''req_a''
      = Some [\<lparr> ref_instance = hooked 3 ''UserContext'', ref_onDestroy = Bound 3 OnDestroy Returns,
                ref_onRequestEnd = Bound 3 OnRequestEnd Fulfils \<rparr>]"
    and t: "transient demoRegistry
      = [\<lparr> ref_instance = hooked 2 ''Job'', ref_onDestroy = Bound 2 OnDestroy Returns \<rparr>]"
    and g: "singleton demoRegistry
      = [\<lparr> ref_instance = hooked 1 ''Database'',
           ref_onDestroy = Bound 1 OnDestroy (Throws (Error ''closed'')) \<rparr>]"
    by (simp_all add: demoRegistry_def)
  from shutdown_order[OF s] m t g
  have "sorted (phases (snd (shutdown demoRegistry)))
   \<and> Invoked (ByRequestCleanup ''req_a'') 3 OnRequestEnd \<in> set (snd (shutdown demoRegistry))
   \<and> Invoked ByTransientCleanup 2 OnDestroy \<in> set (snd (shutdown demoRegistry))
   \<and> Invoked BySingletonCleanup 1 OnDestroy \<in> set (snd (shutdown demoRegistry))"
    by fastforce
  with e show ?thesis by blast
qed

text \<open>
  C7, evaluated on the code. An \<open>onInit\<close> that throws: the error leaves
  \<open>applyLifecycle\<close>, nothing is logged and the instance's \<open>onDestroy\<close> is not
  registered. An \<open>onInit\<close> that returns a rejected promise: the error is logged and
  \<open>applyLifecycle\<close> completes.
\<close>

theorem applyLifecycle_propagates_thrown_error:
  "applyLifecycle emptyRegistry ((hooked 1 ''Database'')\<lparr>onInit := Some (Throws (Error ''boom''))\<rparr>)
       Singleton None
     = (Inl (Error ''boom''), emptyRegistry, [Invoked ByApply 1 OnInit])
   \<and> applyLifecycle emptyRegistry ((hooked 1 ''Database'')\<lparr>onInit := Some (Rejects (Error ''boom''))\<rparr>)
       Singleton None
     = (Inr (),
        emptyRegistry\<lparr>singleton :=
          [\<lparr> ref_instance = (hooked 1 ''Database'')\<lparr>onInit := Some (Rejects (Error ''boom''))\<rparr>,
             ref_onDestroy = Bound 1 OnDestroy Returns \<rparr>]\<rparr>,
        [Invoked ByApply 1 OnInit, ErrorLogged ''Erro no onInit de Database:'' (Error ''boom'')])"
  by (simp add: applyLifecycle_def emptyRegistry_def hooked_def fireAndLog_def truthy_def
      registerForCleanup_def Let_def)

text \<open>
  C10, as the code has it. A resolve without request id of a class provider with scope
  \<open>request\<close> that returns an instance, the generated id not being in use: the
  instance is cached under the generated id; the number of active requests has grown
  by at least one, and by exactly one when the class has no constructor parameters;
  \<open>clearRequestInstances\<close> with any other id leaves the entry where it is.
\<close>

theorem request_without_id_adds_bucket:
  assumes prov: "map_of (providers c) tok = Some p" "requestClassProvider p target"
    and fresh: "map_of (requestInstances c) (requestIds env (generatedIds c)) = None"
    and first: "resolve n env c tok None = Some (Inr v, c1)" and np: "\<not> isPromise v"
  shows "cachedFor c1 (requestIds env (generatedIds c)) tok = Some v
    \<and> Suc (activeRequests (getStats c)) \<le> activeRequests (getStats c1)
    \<and> (\<forall>r'. r' \<noteq> requestIds env (generatedIds c) \<longrightarrow>
          cachedFor (clearRequestInstances c1 r') (requestIds env (generatedIds c)) tok = Some v)
    \<and> ((case paramtypes env target of None \<Rightarrow> True | Some ds \<Rightarrow> ds = []) \<longrightarrow>
          activeRequests (getStats c1) = Suc (activeRequests (getStats c)))"
proof -
  let ?g = "requestIds env (generatedIds c)"
  let ?c0 = "c\<lparr>resolutionStack := resolutionStack c @ [tok], generatedIds := Suc (generatedIds c)\<rparr>"
  from request_resolved_noid[OF prov first np] obtain k c' where
    rr: "resolveRequest (resolve k env) env ?c0 tok target ?g = Some (Inr v, c')"
    and c1: "c1 = popStack c' tok" by blast
  from resolveRequest_cached[OF rr keeping_resolve] have cached: "cachedFor c1 ?g tok = Some v"
    by (simp add: c1 cachedFor_fields)
  from fresh have f0: "cachedFor ?c0 ?g tok = None" by (simp add: cachedFor_def)
  from resolveRequest_miss[OF f0 rr keeping_resolve] obtain b m where
    ci: "createInstance (resolve k env) env (withBucket ?c0 ?g) target (Some ?g) = Some (Inr v, b)"
    and m: "map_of (requestInstances b) ?g = Some m"
    and c': "c' = b\<lparr>requestInstances := AList.update ?g (AList.update tok v m) (requestInstances b)\<rparr>"
    by blast
  have len0: "length (requestInstances (withBucket ?c0 ?g)) = Suc (length (requestInstances c))"
    using fresh by (simp add: withBucket_def length_update_fresh)
  have len': "length (requestInstances c1) = length (requestInstances b)"
    using m by (simp add: c1 c' popStack_def length_update_present)
  from createInstance_keeps[OF ci keeping_resolve]
  have "length (requestInstances (withBucket ?c0 ?g)) \<le> length (requestInstances b)"
    by (simp add: keeps_def)
  with len0 len' have grow: "Suc (activeRequests (getStats c)) \<le> activeRequests (getStats c1)"
    by (simp add: getStats_def)
  have exact: "activeRequests (getStats c1) = Suc (activeRequests (getStats c))"
    if "case paramtypes env target of None \<Rightarrow> True | Some ds \<Rightarrow> ds = []"
  proof -
    from that ci have "requestInstances b = requestInstances (withBucket ?c0 ?g)"
      by (auto simp: createInstance_def split: option.splits)
    with len0 len' show ?thesis by (simp add: getStats_def)
  qed
  from cached grow exact show ?thesis by (simp add: clear_other)
qed

theorem request_without_id_adds_bucket_witness:
  "resolve (Suc (Suc 0)) noMetadata requestContainer (ClassT ''UserContext'') None
     = Some (Inr (Obj 0 ''UserContext'' []),
          requestContainer\<lparr>requestInstances :=
             [(''req_0'', [(ClassT ''UserContext'', Obj 0 ''UserContext'' [])])],
             nextObject := 1, generatedIds := 1\<rparr>)
   \<and> activeRequests (getStats requestContainer) = 0
   \<and> activeRequests (getStats (requestContainer\<lparr>requestInstances :=
             [(''req_0'', [(ClassT ''UserContext'', Obj 0 ''UserContext'' [])])],
             nextObject := 1, generatedIds := 1\<rparr>)) = 1
   \<and> cachedFor (clearRequestInstances (requestContainer\<lparr>requestInstances :=
             [(''req_0'', [(ClassT ''UserContext'', Obj 0 ''UserContext'' [])])],
             nextObject := 1, generatedIds := 1\<rparr>) ''req_a'') ''req_0'' (ClassT ''UserContext'')
       = Some (Obj 0 ''UserContext'' [])"
proof -
  let ?T = "ClassT ''UserContext''"
  let ?N1 = "requestContainer\<lparr>requestInstances :=
             [(''req_0'', [(?T, Obj 0 ''UserContext'' [])])], nextObject := 1, generatedIds := 1\<rparr>"
  have p: "map_of (providers requestContainer) ?T = Some (classProvider ''UserContext'' Request)"
    and q: "requestClassProvider (classProvider ''UserContext'' Request) ''UserContext''"
    and g: "requestIds noMetadata (generatedIds requestContainer) = ''req_0''"
    and f: "map_of (requestInstances requestContainer) (requestIds noMetadata (generatedIds requestContainer)) = None"
    and z: "activeRequests (getStats requestContainer) = 0"
    and pt: "paramtypes noMetadata ''UserContext'' = None"
    by (simp_all add: requestContainer_def newContainer_def register_def requestClassProvider_def
        classProvider_def noMetadata_def getStats_def digit_def)
  have n1: "resolve (Suc (Suc 0)) noMetadata requestContainer ?T None
      = Some (Inr (Obj 0 ''UserContext'' []), ?N1)"
    by (simp add: requestContainer_def newContainer_def register_def classProvider_def noMetadata_def
        provide_def resolveRequest_def createInstance_def popStack_def generateRequestId_def
        digit_def)
  from request_without_id_adds_bucket[OF p q f n1] g z pt
  have "activeRequests (getStats ?N1) = 1
     \<and> cachedFor (clearRequestInstances ?N1 ''req_a'') ''req_0'' ?T = Some (Obj 0 ''UserContext'' [])"
    by simp
  with n1 z show ?thesis by blast
qed

text \<open>
  C10, as stated, fails: a request-scoped \<open>Handler\<close> whose singleton parameter
  \<open>Cache\<close> is constructed on the way and has a request-scoped parameter \<open>Session\<close>.
  The singleton's parameters are resolved without request id, so a second id is
  generated and one resolve adds two entries.
\<close>

theorem nested_resolve_adds_two_buckets:
  "resolve (Suc (Suc (Suc (Suc 0)))) (noMetadata\<lparr>paramtypes := nestedParamtypes\<rparr>) nestedContainer
       (ClassT ''Handler'') None
     = Some (Inr (Obj 2 ''Handler'' [Obj 1 ''Cache'' [Obj 0 ''Session'' []]]),
          nestedContainer\<lparr>singletons := [(ClassT ''Cache'', Obj 1 ''Cache'' [Obj 0 ''Session'' []])],
            requestInstances :=
              [(''req_0'', [(ClassT ''Handler'',
                              Obj 2 ''Handler'' [Obj 1 ''Cache'' [Obj 0 ''Session'' []]])]),
               (''req_1'', [(ClassT ''Session'', Obj 0 ''Session'' [])])],
            nextObject := 3, generatedIds := 2\<rparr>)
   \<and> activeRequests (getStats nestedContainer) = 0
   \<and> activeRequests (getStats
        (nestedContainer\<lparr>singletons := [(ClassT ''Cache'', Obj 1 ''Cache'' [Obj 0 ''Session'' []])],
            requestInstances :=
              [(''req_0'', [(ClassT ''Handler'',
                              Obj 2 ''Handler'' [Obj 1 ''Cache'' [Obj 0 ''Session'' []]])]),
               (''req_1'', [(ClassT ''Session'', Obj 0 ''Session'' [])])],
            nextObject := 3, generatedIds := 2\<rparr>)) = 2"
  by (simp add: nestedContainer_def nestedParamtypes_def newContainer_def register_def
      classProvider_def noMetadata_def provide_def resolveRequest_def resolveSingleton_def
      createInstance_def popStack_def generateRequestId_def getStats_def isInitializationError_def
      digit_def)


text \<open>
  C8. \<open>register(token, provider)\<close> makes \<open>provider\<close> the entry of \<open>token\<close> in the
  provider table (inserting or overwriting) and leaves every other entry as it was; the
  pending-resolution table loses the record of \<open>token\<close>, if there was one, and nothing
  else, so \<open>getPendingResolutions()\<close> reports exactly the records of the other tokens.
\<close>

theorem register_sets_provider_and_clears_pending:
  "map_of (providers (register c tok p)) = (map_of (providers c))(tok \<mapsto> p)
   \<and> map_of (pendingResolutions (register c tok p)) tok = None
   \<and> tok \<notin> fst ` set (pendingResolutions (register c tok p))
   \<and> getPendingResolutions (register c tok p)
       = map report (map snd (filter (\<lambda>e. fst e \<noteq> tok) (pendingResolutions c)))"
proof -
  have "map_of (providers (register c tok p)) = (map_of (providers c))(tok \<mapsto> p)"
    by (simp add: register_def Let_def update_conv')
  moreover have "map_of (pendingResolutions (register c tok p)) tok = None"
    by (simp add: register_pending map_of_delete_same)
  moreover have "tok \<notin> fst ` set (pendingResolutions (register c tok p))"
    by (simp add: register_pending delete_notin_dom)
  moreover have "getPendingResolutions (register c tok p)
       = map report (map snd (filter (\<lambda>e. fst e \<noteq> tok) (pendingResolutions c)))"
    by (simp add: getPendingResolutions_def register_pending delete_filter)
  ultimately show ?thesis by blast
qed

text \<open>
  C9. \<open>reset()\<close> empties the provider table, the singleton cache and the
  request-instance cache and changes no other field: the pending-resolution table, the
  deferred-resolution flag and the resolution stack are as before, so
  \<open>getPendingResolutions()\<close> reports the same records after it.
\<close>

theorem reset_keeps_pending:
  "reset c = c\<lparr>providers := [], singletons := [], requestInstances := []\<rparr>
   \<and> providers (reset c) = [] \<and> singletons (reset c) = []
   \<and> requestInstances (reset c) = []
   \<and> pendingResolutions (reset c) = pendingResolutions c
   \<and> enableDeferredResolution (reset c) = enableDeferredResolution c
   \<and> resolutionStack (reset c) = resolutionStack c
   \<and> getPendingResolutions (reset c) = getPendingResolutions c
   \<and> stat_pendingResolutions (getStats (reset c)) = stat_pendingResolutions (getStats c)"
  by (simp add: reset_def getPendingResolutions_def getStats_def)

end
